theory Spec2Isabelle
  imports Main
begin

section \<open>Data model of syncer.go\<close>

text \<open>
  Paths, error messages and file contents are Go strings and byte slices: all three are
  \<open>string\<close> here (a \<open>char\<close> is one byte). A \<open>time.Time\<close> is an instant, modelled as
  an integer; an \<open>int64\<close> is an \<open>int\<close> with the wrap-around of its arithmetic written
  out by \<open>wrap64\<close>.
\<close>

type_synonym time = int

definition wrap64 :: "int \<Rightarrow> int" where
  "wrap64 x = (x + 2 ^ 63) mod 2 ^ 64 - 2 ^ 63"

text \<open>\<open>type FileInfo struct\<close> (syncer.go, lines 33-39).\<close>

record FileInfo =
  Path :: string
  RelPath :: string
  Size :: int
  ModTime :: time
  IsDir :: bool

text \<open>
  The requests that syncer.go sends through \<open>s.client\<close> (an \<open>*sftp.Client\<close>) and through the
  remote file handle that \<open>Create\<close> returns. A handle is named by the path it was created
  for. The client library is not part of the repository: how the server answers is a
  parameter, a function from the request and the server's state to an optional error and
  the new state.
\<close>

datatype rop =
    Stat string
  | MkdirAll string
  | Create string
  | Write string string
  | Close string
  | Chmod string nat
  | Chtimes string time time
  | Rename string string
  | RemoveDirectory string

type_synonym 'r sftp = "rop \<Rightarrow> 'r \<Rightarrow> string option \<times> 'r"

text \<open>The three results of \<open>localFile.Read\<close> that the copy loop tells apart: \<open>nil\<close>,
  \<open>io.EOF\<close>, any other error.\<close>

datatype rerr = RNil | REOF | RErr string

text \<open>Everything the engine asks of its collaborators is recorded, with the answer.\<close>

datatype event =
    Called rop "string option"
  | Opened string "string option"
  | ReadChunk string nat rerr

datatype level = Debug | Info | Warn

datatype logarg = S string | D int

type_synonym logline = "level \<times> string \<times> logarg list"

datatype bar_ev = BarStart int | BarSetCurrent int | BarFinish

text \<open>
  \<open>type Syncer struct\<close> (lines 42-53). \<open>client\<close> is the port, \<open>remote\<close> the state of the
  server behind it. \<open>bar\<close> and \<open>logger\<close> hold what has been sent to the progress bar and
  to the logger, \<open>trace\<close> the calls made so far, \<open>clock_reads\<close> how often \<open>time.Now()\<close>
  has been read. The mutex has no field: the update it protects is one atomic step of
  the model.
\<close>

record 'r Syncer =
  client :: "'r sftp"
  remote :: 'r
  localPath :: string
  remotePath :: string
  mode :: string
  workers :: int
  bar :: "bar_ev list"
  totalSize :: int
  syncedSize :: int
  logger :: "logline list"
  trace :: "event list"
  clock_reads :: nat

text \<open>\<open>type SyncConfig struct\<close> (lines 25-30) and \<open>New\<close> (lines 56-65).\<close>

record SyncConfig =
  LocalPath :: string
  RemotePath :: string
  Mode :: string
  Workers :: int

definition New :: "'r sftp \<Rightarrow> 'r \<Rightarrow> SyncConfig \<Rightarrow> 'r Syncer" where
  "New c r syncConfig =
     \<lparr>client = c, remote = r,
      localPath = LocalPath syncConfig, remotePath = RemotePath syncConfig,
      mode = Mode syncConfig, workers = Workers syncConfig,
      bar = [], totalSize = 0, syncedSize = 0, logger = [], trace = [], clock_reads = 0\<rparr>"

text \<open>
  The operating system and the Go standard library, as parameters: \<open>filepath.Walk\<close> gives
  the visits it makes (path, file info, error), \<open>os.Open\<close> an error or the results of the
  successive \<open>Read\<close> calls on the file (after the last one, \<open>Read\<close> returns 0 and
  \<open>io.EOF\<close>; a chunk is what one \<open>Read\<close> puts into the 32 KB buffer, and nothing below
  depends on that bound), \<open>time.Now\<close> its successive readings, \<open>sched\<close> the order in
  which the Go scheduler lets the workers of one pool take their steps.
\<close>

record osinfo =
  info_Size :: int
  info_ModTime :: time
  info_IsDir :: bool

type_synonym visit = "string \<times> osinfo \<times> string option"

type_synonym script = "(string \<times> rerr) list"

record os_env =
  fp_Walk :: "string \<Rightarrow> visit list"
  fp_Rel :: "string \<Rightarrow> string \<Rightarrow> string + string"
  fp_Join :: "string \<Rightarrow> string \<Rightarrow> string"
  fp_Dir :: "string \<Rightarrow> string"
  os_Open :: "string \<Rightarrow> string + script"
  time_Now :: "nat \<Rightarrow> time"
  time_Format :: "time \<Rightarrow> string"
  sched :: "nat list"

section \<open>Collaborator calls\<close>

definition call :: "rop \<Rightarrow> 'r Syncer \<Rightarrow> string option \<times> 'r Syncer" where
  "call op s =
     (let (e, r) = client s op (remote s)
      in (e, s\<lparr>remote := r, trace := trace s @ [Called op e]\<rparr>))"

definition record_ev :: "event \<Rightarrow> 'r Syncer \<Rightarrow> 'r Syncer" where
  "record_ev ev s = s\<lparr>trace := trace s @ [ev]\<rparr>"

definition logf :: "level \<Rightarrow> string \<Rightarrow> logarg list \<Rightarrow> 'r Syncer \<Rightarrow> 'r Syncer" where
  "logf l fmt args s = s\<lparr>logger := logger s @ [(l, fmt, args)]\<rparr>"

definition now :: "os_env \<Rightarrow> 'r Syncer \<Rightarrow> time \<times> 'r Syncer" where
  "now env s = (time_Now env (clock_reads s), s\<lparr>clock_reads := Suc (clock_reads s)\<rparr>)"

definition barFinish :: "'r Syncer \<Rightarrow> 'r Syncer" where
  "barFinish s = s\<lparr>bar := bar s @ [BarFinish]\<rparr>"

text \<open>Lines 98-104 and 183-189: a new bar for \<open>s.totalSize\<close>; the five calls that follow
  only set how it is drawn.\<close>

definition barStart :: "'r Syncer \<Rightarrow> 'r Syncer" where
  "barStart s = s\<lparr>bar := bar s @ [BarStart (totalSize s)]\<rparr>"

section \<open>collectLocalFiles (lines 208-250)\<close>

text \<open>The callback given to \<open>filepath.Walk\<close>, run over the visits; \<open>Walk\<close> stops at the
  first error the callback returns.\<close>

fun walkFn :: "os_env \<Rightarrow> visit list \<Rightarrow> FileInfo list \<Rightarrow> 'r Syncer
    \<Rightarrow> (string + FileInfo list) \<times> 'r Syncer" where
  "walkFn env [] files s = (Inr files, s)"
| "walkFn env ((path, info, err) # vs) files s =
     (case err of
        Some e \<Rightarrow> (Inl e, s)
      | None \<Rightarrow>
          (case fp_Rel env (localPath s) path of
             Inl e \<Rightarrow> (Inl e, s)
           | Inr relPath \<Rightarrow>
               if relPath = ''.'' then walkFn env vs files s
               else walkFn env vs
                 (files @ [\<lparr>Path = path, RelPath = relPath, Size = info_Size info,
                            ModTime = info_ModTime info, IsDir = info_IsDir info\<rparr>])
                 (if info_IsDir info
                  then logf Debug ''Found directory: %s'' [S relPath] s
                  else logf Debug ''Found file: %s (%d bytes)'' [S relPath, D (info_Size info)] s)))"

definition collectLocalFiles :: "os_env \<Rightarrow> 'r Syncer \<Rightarrow> (string + FileInfo list) \<times> 'r Syncer" where
  "collectLocalFiles env s =
     (let s1 = logf Info ''Collecting files from: %s'' [S (localPath s)] s
      in case walkFn env (fp_Walk env (localPath s)) [] s1 of
           (Inl e, s2) \<Rightarrow> (Inl (''failed to walk local directory: '' @ e), s2)
         | (Inr files, s2) \<Rightarrow>
             (Inr files, logf Info ''Found %d files/directories'' [D (int (length files))] s2))"

text \<open>Lines 90-95 and 175-180.\<close>

definition calcTotalSize :: "FileInfo list \<Rightarrow> int" where
  "calcTotalSize files =
     foldl (\<lambda>t file. if \<not> IsDir file then wrap64 (t + Size file) else t) 0 files"

section \<open>The worker pool: uploadFiles, worker, uploadFile (lines 253-378)\<close>

text \<open>
  A worker goroutine is at one of these points. Each step of a worker is one call on a
  shared object: the job channel, the local file, the server, the counter under the
  mutex, the error channel. Taking the buffer from the pool and returning it, and the
  deferred \<open>localFile.Close()\<close>, touch nothing that is shared and are not steps; the
  deferred \<open>remoteFile.Close()\<close> is a request to the server and is one (\<open>WClose\<close>, with
  the error that \<open>uploadFile\<close> is returning). In line 372 the argument \<open>time.Now()\<close> is
  evaluated before \<open>Chtimes\<close> is called: reading the clock is a step of its own (\<open>WNow\<close>),
  other workers may run between it and the call, and \<open>WChtimes\<close> carries the reading.
\<close>

datatype wstate =
    WRecv
  | WMkdir FileInfo
  | WOpen FileInfo
  | WParent FileInfo script
  | WCreate FileInfo script
  | WRead FileInfo script
  | WWrite FileInfo string rerr script
  | WCount FileInfo nat rerr script
  | WChmod FileInfo
  | WNow FileInfo
  | WChtimes FileInfo time
  | WClose FileInfo "string option"
  | WSend string
  | WExited

record 'r pool =
  sy :: "'r Syncer"
  jobs :: "FileInfo list"
  errors :: "string list"
  ws :: "wstate list"

definition perm_0644 :: nat where
  "perm_0644 = 6 * 64 + 4 * 8 + 4"

text \<open>Line 303: the error a worker sends when \<open>MkdirAll\<close> fails for a directory entry.\<close>

definition mkdir_err :: "string \<Rightarrow> string \<Rightarrow> string" where
  "mkdir_err remoteDirPath m = ''failed to create remote directory '' @ remoteDirPath @ '': '' @ m"

text \<open>Line 309: the worker's wrapping of an error returned by \<open>uploadFile\<close>.\<close>

definition upload_err :: "FileInfo \<Rightarrow> string \<Rightarrow> string" where
  "upload_err file m = ''failed to upload file '' @ RelPath file @ '': '' @ m"

text \<open>Lines 359-364: what the copy loop does with the error of the last \<open>Read\<close>.\<close>

fun after_read :: "FileInfo \<Rightarrow> rerr \<Rightarrow> script \<Rightarrow> wstate" where
  "after_read file RNil rest = WRead file rest"
| "after_read file REOF rest = WChmod file"
| "after_read file (RErr x) rest = WClose file (Some (''failed to read local file: '' @ x))"

fun wstep :: "os_env \<Rightarrow> string \<Rightarrow> wstate \<Rightarrow> 'r pool \<Rightarrow> wstate \<times> 'r pool" where
  "wstep env base WRecv p =
     (case jobs p of
        [] \<Rightarrow> (WExited, p)
      | file # rest \<Rightarrow> (if IsDir file then WMkdir file else WOpen file, p\<lparr>jobs := rest\<rparr>))"
| "wstep env base (WMkdir file) p =
     (let remoteDirPath = fp_Join env base (RelPath file);
          s1 = logf Debug ''Creating remote directory: %s'' [S remoteDirPath] (sy p);
          (e, s2) = call (MkdirAll remoteDirPath) s1
      in (case e of
            Some x \<Rightarrow> WSend (mkdir_err remoteDirPath x)
          | None \<Rightarrow> WRecv,
          p\<lparr>sy := s2\<rparr>))"
| "wstep env base (WOpen file) p =
     (case os_Open env (Path file) of
        Inl x \<Rightarrow> (WSend (upload_err file (''failed to open local file: '' @ x)),
                  p\<lparr>sy := record_ev (Opened (Path file) (Some x)) (sy p)\<rparr>)
      | Inr sc \<Rightarrow> (WParent file sc, p\<lparr>sy := record_ev (Opened (Path file) None) (sy p)\<rparr>))"
| "wstep env base (WParent file sc) p =
     (let remoteFilePath = fp_Join env base (RelPath file);
          remoteDir = fp_Dir env remoteFilePath;
          (e, s1) = call (MkdirAll remoteDir) (sy p)
      in (case e of
            Some x \<Rightarrow> WSend (upload_err file (''failed to create remote directory: '' @ x))
          | None \<Rightarrow> WCreate file sc,
          p\<lparr>sy := s1\<rparr>))"
| "wstep env base (WCreate file sc) p =
     (let remoteFilePath = fp_Join env base (RelPath file);
          (e, s1) = call (Create remoteFilePath) (sy p)
      in (case e of
            Some x \<Rightarrow> WSend (upload_err file (''failed to create remote file: '' @ x))
          | None \<Rightarrow> WRead file sc,
          p\<lparr>sy := s1\<rparr>))"
| "wstep env base (WRead file sc) p =
     (case sc of
        [] \<Rightarrow> (WChmod file, p\<lparr>sy := record_ev (ReadChunk (Path file) 0 REOF) (sy p)\<rparr>)
      | (chunk, err) # rest \<Rightarrow>
          (if length chunk > 0 then WWrite file chunk err rest else after_read file err rest,
           p\<lparr>sy := record_ev (ReadChunk (Path file) (length chunk) err) (sy p)\<rparr>))"
| "wstep env base (WWrite file chunk err rest) p =
     (let remoteFilePath = fp_Join env base (RelPath file);
          (e, s1) = call (Write remoteFilePath chunk) (sy p)
      in (case e of
            Some x \<Rightarrow> WClose file (Some (''failed to write to remote file: '' @ x))
          | None \<Rightarrow> WCount file (length chunk) err rest,
          p\<lparr>sy := s1\<rparr>))"
| "wstep env base (WCount file n err rest) p =
     (let s = sy p;
          synced = wrap64 (syncedSize s + int n)
      in (after_read file err rest,
          p\<lparr>sy := s\<lparr>syncedSize := synced, bar := bar s @ [BarSetCurrent synced]\<rparr>\<rparr>))"
| "wstep env base (WChmod file) p =
     (let remoteFilePath = fp_Join env base (RelPath file);
          (e, s1) = call (Chmod remoteFilePath perm_0644) (sy p);
          s2 = (case e of
                  Some x \<Rightarrow> logf Warn ''Failed to set permissions for %s: %v'' [S remoteFilePath, S x] s1
                | None \<Rightarrow> s1)
      in (WNow file, p\<lparr>sy := s2\<rparr>))"
| "wstep env base (WNow file) p =
     (let (t, s1) = now env (sy p)
      in (WChtimes file t, p\<lparr>sy := s1\<rparr>))"
| "wstep env base (WChtimes file t) p =
     (let remoteFilePath = fp_Join env base (RelPath file);
          (e, s2) = call (Chtimes remoteFilePath t (ModTime file)) (sy p);
          s3 = (case e of
                  Some x \<Rightarrow> logf Warn ''Failed to set modification time for %s: %v''
                              [S remoteFilePath, S x] s2
                | None \<Rightarrow> s2);
          s4 = logf Debug ''Uploaded: %s (%d bytes)'' [S (RelPath file), D (Size file)] s3
      in (WClose file None, p\<lparr>sy := s4\<rparr>))"
| "wstep env base (WClose file res) p =
     (let remoteFilePath = fp_Join env base (RelPath file);
          (e, s1) = call (Close remoteFilePath) (sy p)
      in (case res of None \<Rightarrow> WRecv | Some m \<Rightarrow> WSend (upload_err file m),
          p\<lparr>sy := s1\<rparr>))"
| "wstep env base (WSend m) p = (WRecv, p\<lparr>errors := errors p @ [m]\<rparr>)"
| "wstep env base WExited p = (WExited, p)"

text \<open>Worker \<open>i\<close> takes one step; a number that names no worker changes nothing.\<close>

definition tick :: "os_env \<Rightarrow> string \<Rightarrow> 'r pool \<Rightarrow> nat \<Rightarrow> 'r pool" where
  "tick env base p i =
     (if i < length (ws p)
      then (let (w, p1) = wstep env base (ws p ! i) p in p1\<lparr>ws := (ws p1)[i := w]\<rparr>)
      else p)"

definition run_ticks :: "os_env \<Rightarrow> string \<Rightarrow> nat list \<Rightarrow> 'r pool \<Rightarrow> 'r pool" where
  "run_ticks env base is p = foldl (tick env base) p is"

text \<open>
  \<open>wg.Wait()\<close>: after the steps that \<open>sched\<close> orders, the workers that have not returned
  run on, the first of them each time, until all have. The fuel is a bound on the steps
  left (\<open>pool_weight\<close>); \<open>drain_done\<close> below proves that it is enough.
\<close>

fun first_active :: "wstate list \<Rightarrow> nat option" where
  "first_active [] = None"
| "first_active (w # rest) =
     (if w = WExited then map_option Suc (first_active rest) else Some 0)"

fun drain :: "os_env \<Rightarrow> string \<Rightarrow> nat \<Rightarrow> 'r pool \<Rightarrow> 'r pool" where
  "drain env base 0 p = p"
| "drain env base (Suc n) p =
     (case first_active (ws p) of
        None \<Rightarrow> p
      | Some i \<Rightarrow> drain env base n (tick env base p i))"

definition script_of :: "os_env \<Rightarrow> FileInfo \<Rightarrow> script" where
  "script_of env file = (case os_Open env (Path file) of Inl x \<Rightarrow> [] | Inr sc \<Rightarrow> sc)"

fun wweight :: "os_env \<Rightarrow> wstate \<Rightarrow> nat" where
  "wweight env WExited = 0"
| "wweight env WRecv = 1"
| "wweight env (WSend m) = 2"
| "wweight env (WMkdir file) = 3"
| "wweight env (WClose file res) = 3"
| "wweight env (WChtimes file t) = 4"
| "wweight env (WNow file) = 5"
| "wweight env (WChmod file) = 6"
| "wweight env (WRead file sc) = 3 * length sc + 7"
| "wweight env (WCount file n err rest) = 3 * length rest + 8"
| "wweight env (WWrite file chunk err rest) = 3 * length rest + 9"
| "wweight env (WCreate file sc) = 3 * length sc + 8"
| "wweight env (WParent file sc) = 3 * length sc + 9"
| "wweight env (WOpen file) = 3 * length (script_of env file) + 10"

definition job_weight :: "os_env \<Rightarrow> FileInfo \<Rightarrow> nat" where
  "job_weight env file = (if IsDir file then 3 else 3 * length (script_of env file) + 10)"

definition pool_weight :: "os_env \<Rightarrow> 'r pool \<Rightarrow> nat" where
  "pool_weight env p = sum_list (map (wweight env) (ws p)) + sum_list (map (job_weight env) (jobs p))"

text \<open>
  \<open>uploadFiles\<close> (lines 253-290). Both channels have room for every entry, so the loop that
  sends the jobs never blocks and the job channel is the list of entries, in order; a
  worker sends at most one error per entry. The workers are \<open>s.workers\<close> goroutines, none
  when that number is zero or negative. The errors sent are never \<open>nil\<close>: the first in
  the channel is returned.
\<close>

definition init_pool :: "'r Syncer \<Rightarrow> FileInfo list \<Rightarrow> 'r pool" where
  "init_pool s files = \<lparr>sy = s, jobs = files, errors = [], ws = replicate (nat (workers s)) WRecv\<rparr>"

definition run_pool :: "os_env \<Rightarrow> string \<Rightarrow> 'r pool \<Rightarrow> 'r pool" where
  "run_pool env base p =
     (let p1 = run_ticks env base (sched env) p
      in drain env base (pool_weight env p1) p1)"

definition uploadFiles :: "os_env \<Rightarrow> FileInfo list \<Rightarrow> string \<Rightarrow> 'r Syncer
    \<Rightarrow> string option \<times> 'r Syncer" where
  "uploadFiles env files remoteBasePath s =
     (let p = run_pool env remoteBasePath (init_pool s files)
      in (case errors p of
            [] \<Rightarrow> None
          | err # rest \<Rightarrow> Some (''worker error: '' @ err),
          sy p))"

section \<open>incrementalSync (lines 165-205)\<close>

definition incrementalSync :: "os_env \<Rightarrow> 'r Syncer \<Rightarrow> string option \<times> 'r Syncer" where
  "incrementalSync env s =
     (let s1 = logf Info ''Performing incremental synchronization...'' [] s
      in case collectLocalFiles env s1 of
           (Inl e, s2) \<Rightarrow> (Some (''failed to collect local files: '' @ e), s2)
         | (Inr localFiles, s2) \<Rightarrow>
             (let s3 = barStart (s2\<lparr>totalSize := calcTotalSize localFiles\<rparr>)
              in case call (MkdirAll (remotePath s3)) s3 of
                   (Some e, s4) \<Rightarrow>
                     (Some (''failed to create remote directory: '' @ e), barFinish s4)
                 | (None, s4) \<Rightarrow>
                     (case uploadFiles env localFiles (remotePath s4) s4 of
                        (Some e, s5) \<Rightarrow> (Some (''failed to upload files: '' @ e), barFinish s5)
                      | (None, s5) \<Rightarrow> (None, barFinish s5))))"

section \<open>fullSync (lines 80-162)\<close>

text \<open>Lines 141-161: the swap, the rollback, the removal of the backup.\<close>

definition fullSync_swap :: "string \<Rightarrow> string \<Rightarrow> 'r Syncer \<Rightarrow> string option \<times> 'r Syncer" where
  "fullSync_swap tempRemotePath backupPath s =
     (let s1 = logf Info ''Renaming %s to %s'' [S tempRemotePath, S (remotePath s)] s
      in case call (Rename tempRemotePath (remotePath s)) s1 of
           (Some err, s2) \<Rightarrow>
             (case call (Stat backupPath) s2 of
                (None, s3) \<Rightarrow>
                  (case call (Rename backupPath (remotePath s)) s3 of
                     (Some restoreErr, s4) \<Rightarrow>
                       (Some (''sync failed and restore failed: '' @ err
                              @ '', restore error: '' @ restoreErr), s4)
                   | (None, s4) \<Rightarrow> (Some (''sync failed, restored from backup: '' @ err), s4))
              | (Some backupErr, s3) \<Rightarrow>
                  (Some (''failed to rename temporary directory: '' @ err), s3))
         | (None, s2) \<Rightarrow>
             (case call (Stat backupPath) s2 of
                (None, s3) \<Rightarrow>
                  (let s4 = logf Info ''Removing backup directory: %s'' [S backupPath] s3
                   in case call (RemoveDirectory backupPath) s4 of
                        (Some e, s5) \<Rightarrow>
                          (None, logf Warn ''Failed to remove backup directory: %v'' [S e] s5)
                      | (None, s5) \<Rightarrow> (None, s5))
              | (Some e, s3) \<Rightarrow> (None, s3)))"

text \<open>Lines 129-138: the backup. \<open>Inl\<close> is an early return, \<open>Inr\<close> carries the backup path on.\<close>

definition fullSync_mkbackup :: "os_env \<Rightarrow> 'r Syncer
    \<Rightarrow> (string option \<times> 'r Syncer) + (string \<times> 'r Syncer)" where
  "fullSync_mkbackup env s =
     (let (t, s1) = now env s;
          backupPath = remotePath s @ ''.bak_'' @ time_Format env t;
          s2 = logf Info ''Creating backup at: %s'' [S backupPath] s1
      in case call (Stat (remotePath s)) s2 of
           (None, s3) \<Rightarrow>
             (case call (Rename (remotePath s) backupPath) s3 of
                (Some e, s4) \<Rightarrow> Inl (Some (''failed to create backup: '' @ e), s4)
              | (None, s4) \<Rightarrow> Inr (backupPath, s4))
         | (Some e, s3) \<Rightarrow> Inr (backupPath, s3))"

text \<open>Lines 124-161: the upload, then the backup and the swap.\<close>

definition fullSync_upload :: "os_env \<Rightarrow> FileInfo list \<Rightarrow> string \<Rightarrow> 'r Syncer
    \<Rightarrow> string option \<times> 'r Syncer" where
  "fullSync_upload env localFiles tempRemotePath s =
     (case uploadFiles env localFiles tempRemotePath s of
        (Some e, s1) \<Rightarrow> (Some (''failed to upload files: '' @ e), s1)
      | (None, s1) \<Rightarrow>
          (case fullSync_mkbackup env s1 of
             Inl ret \<Rightarrow> ret
           | Inr (backupPath, s2) \<Rightarrow> fullSync_swap tempRemotePath backupPath s2))"

text \<open>Lines 116-122: the deferred function, run on every return after it was set up.\<close>

definition fullSync_deferred :: "string \<Rightarrow> string option \<times> 'r Syncer \<Rightarrow> string option \<times> 'r Syncer" where
  "fullSync_deferred tempRemotePath rs =
     (let s1 = logf Info ''Cleaning up temporary directory: %s'' [S tempRemotePath] (snd rs)
      in case call (RemoveDirectory tempRemotePath) s1 of
           (Some e, s2) \<Rightarrow>
             (fst rs, barFinish (logf Warn ''Failed to remove temporary directory: %v'' [S e] s2))
         | (None, s2) \<Rightarrow> (fst rs, barFinish s2))"

text \<open>Lines 81-113: up to the creation of the staging directory. \<open>Inl\<close> is an early return,
  \<open>Inr\<close> carries the entries and the staging path on.\<close>

definition fullSync_stage :: "os_env \<Rightarrow> 'r Syncer
    \<Rightarrow> (string option \<times> 'r Syncer) + (FileInfo list \<times> string \<times> 'r Syncer)" where
  "fullSync_stage env s =
     (let s1 = logf Info ''Performing full synchronization...'' [] s
      in case collectLocalFiles env s1 of
           (Inl e, s2) \<Rightarrow> Inl (Some (''failed to collect local files: '' @ e), s2)
         | (Inr localFiles, s2) \<Rightarrow>
             (let s3 = barStart (s2\<lparr>totalSize := calcTotalSize localFiles\<rparr>);
                  (t, s4) = now env s3;
                  tempRemotePath = fp_Join env (fp_Dir env (remotePath s4))
                                     (''.sync_tmp_'' @ time_Format env t);
                  s5 = logf Info ''Creating temporary directory: %s'' [S tempRemotePath] s4
              in case call (MkdirAll tempRemotePath) s5 of
                   (Some e, s6) \<Rightarrow>
                     Inl (Some (''failed to create temporary directory: '' @ e), barFinish s6)
                 | (None, s6) \<Rightarrow> Inr (localFiles, tempRemotePath, s6)))"

definition fullSync :: "os_env \<Rightarrow> 'r Syncer \<Rightarrow> string option \<times> 'r Syncer" where
  "fullSync env s =
     (case fullSync_stage env s of
        Inl ret \<Rightarrow> ret
      | Inr (localFiles, tempRemotePath, s1) \<Rightarrow>
          fullSync_deferred tempRemotePath (fullSync_upload env localFiles tempRemotePath s1))"

section \<open>Sync (lines 68-77)\<close>

definition Sync :: "os_env \<Rightarrow> 'r Syncer \<Rightarrow> string option \<times> 'r Syncer" where
  "Sync env s =
     (if mode s = ''full'' then fullSync env s
      else if mode s = ''incremental'' then incrementalSync env s
      else (Some (''unsupported sync mode: '' @ mode s), s))"

section \<open>What a run shows: calls, log lines, failures\<close>

text \<open>The calls and the log lines that were added between two states.\<close>

definition new_trace :: "'r Syncer \<Rightarrow> 'r Syncer \<Rightarrow> event list" where
  "new_trace s s' = drop (length (trace s)) (trace s')"

definition new_logs :: "'r Syncer \<Rightarrow> 'r Syncer \<Rightarrow> logline list" where
  "new_logs s s' = drop (length (logger s)) (logger s')"

text \<open>A \<open>Read\<close> error other than \<open>io.EOF\<close>.\<close>

fun is_rerr :: "rerr \<Rightarrow> bool" where
  "is_rerr (RErr x) = True"
| "is_rerr e = False"

text \<open>A collaborator call that returned an error (\<open>io.EOF\<close> is not one).\<close>

fun failed :: "event \<Rightarrow> bool" where
  "failed (Called op (Some e)) = True"
| "failed (Opened p (Some e)) = True"
| "failed (ReadChunk p n e) = is_rerr e"
| "failed ev = False"

text \<open>The failed calls after which \<open>worker\<close> or \<open>uploadFile\<close> returns an error.\<close>

fun transfer_failure :: "event \<Rightarrow> bool" where
  "transfer_failure (Called (MkdirAll p) (Some e)) = True"
| "transfer_failure (Called (Create p) (Some e)) = True"
| "transfer_failure (Called (Write p c) (Some e)) = True"
| "transfer_failure (Opened p (Some e)) = True"
| "transfer_failure (ReadChunk p n e) = is_rerr e"
| "transfer_failure ev = False"

text \<open>A failed \<open>Chmod\<close> or \<open>Chtimes\<close>.\<close>

fun meta_failure :: "event \<Rightarrow> bool" where
  "meta_failure (Called (Chmod p m) (Some e)) = True"
| "meta_failure (Called (Chtimes p a t) (Some e)) = True"
| "meta_failure ev = False"

text \<open>\<open>os.Open\<close> of a local path, \<open>Chmod\<close> and \<open>Chtimes\<close> of a remote path.\<close>

fun opens :: "string \<Rightarrow> event \<Rightarrow> bool" where
  "opens x (Opened p e) = (p = x)"
| "opens x ev = False"

fun chmods :: "string \<Rightarrow> event \<Rightarrow> bool" where
  "chmods x (Called (Chmod p m) e) = (p = x)"
| "chmods x ev = False"

fun chtimes :: "string \<Rightarrow> event \<Rightarrow> bool" where
  "chtimes x (Called (Chtimes p a t) e) = (p = x)"
| "chtimes x ev = False"

fun is_chtimes :: "event \<Rightarrow> bool" where
  "is_chtimes (Called (Chtimes p a t) e) = True"
| "is_chtimes ev = False"

fun atime_of :: "event \<Rightarrow> time" where
  "atime_of (Called (Chtimes p a t) e) = a"
| "atime_of ev = 0"

definition is_warning :: "logline \<Rightarrow> bool" where
  "is_warning l = (fst l = Warn)"

text \<open>Line 300 is logged once for each directory entry a worker takes, with the remote
  path; line 376 once for each file entry whose \<open>uploadFile\<close> returns \<open>nil\<close>, with the
  relative path, here told by the remote path it stands for.\<close>

fun announces :: "string \<Rightarrow> logline \<Rightarrow> bool" where
  "announces p (l, fmt, [S a]) = (fmt = ''Creating remote directory: %s'' \<and> a = p)"
| "announces p ln = False"

fun reports_upload :: "os_env \<Rightarrow> string \<Rightarrow> string \<Rightarrow> logline \<Rightarrow> bool" where
  "reports_upload env base p (l, fmt, [S rel, D n]) =
     (fmt = ''Uploaded: %s (%d bytes)'' \<and> fp_Join env base rel = p)"
| "reports_upload env base p ln = False"

text \<open>The sum of the sizes in the "Uploaded" log lines (line 376): the sizes of the file
  entries whose upload succeeded.\<close>

fun uploaded_total :: "logline list \<Rightarrow> int" where
  "uploaded_total [] = 0"
| "uploaded_total ((l, fmt, [S rel, D n]) # ls) =
     (if fmt = ''Uploaded: %s (%d bytes)'' then n else 0) + uploaded_total ls"
| "uploaded_total (x # ls) = uploaded_total ls"

text \<open>The bytes of the chunk writes that succeeded.\<close>

fun written :: "event list \<Rightarrow> int" where
  "written [] = 0"
| "written (Called (Write p c) None # evs) = int (length c) + written evs"
| "written (ev # evs) = written evs"

text \<open>Kinds of calls.\<close>

fun is_rename :: "event \<Rightarrow> bool" where
  "is_rename (Called (Rename p q) e) = True"
| "is_rename ev = False"

fun is_remove :: "event \<Rightarrow> bool" where
  "is_remove (Called (RemoveDirectory p) e) = True"
| "is_remove ev = False"

fun is_stat :: "event \<Rightarrow> bool" where
  "is_stat (Called (Stat p) e) = True"
| "is_stat ev = False"

fun is_mkdir_of :: "string \<Rightarrow> event \<Rightarrow> bool" where
  "is_mkdir_of target (Called (MkdirAll p) e) = (p = target)"
| "is_mkdir_of target ev = False"

fun is_mkdir :: "event \<Rightarrow> bool" where
  "is_mkdir (Called (MkdirAll p) e) = True"
| "is_mkdir ev = False"

fun is_create :: "event \<Rightarrow> bool" where
  "is_create (Called (Create p) e) = True"
| "is_create ev = False"

fun is_chmod :: "event \<Rightarrow> bool" where
  "is_chmod (Called (Chmod p m) e) = True"
| "is_chmod ev = False"

text \<open>A local file that was opened, a remote directory that was made.\<close>

fun ok_open :: "event \<Rightarrow> bool" where
  "ok_open (Opened p None) = True"
| "ok_open ev = False"

fun ok_mkdir :: "event \<Rightarrow> bool" where
  "ok_mkdir (Called (MkdirAll p) None) = True"
| "ok_mkdir ev = False"

text \<open>A \<open>Chtimes\<close> call that passes \<open>t\<close> as the access time.\<close>

fun uses_atime :: "time \<Rightarrow> event \<Rightarrow> bool" where
  "uses_atime t (Called (Chtimes p a m) e) = (a = t)"
| "uses_atime t ev = False"

text \<open>The failed calls of \<open>uploadFile\<close> for the entry \<open>f\<close>, as far as the trace tells: a failed
  call on its local path, on its remote path, or \<open>MkdirAll\<close> of the parent of its remote
  path; and the file entries that have the local and the remote path of \<open>f\<close>.\<close>

fun fails_of :: "os_env \<Rightarrow> string \<Rightarrow> FileInfo \<Rightarrow> event \<Rightarrow> bool" where
  "fails_of env base f (Opened p (Some e)) = (p = Path f)"
| "fails_of env base f (ReadChunk p n e) = (is_rerr e \<and> p = Path f)"
| "fails_of env base f (Called (MkdirAll p) (Some e)) = (p = fp_Dir env (fp_Join env base (RelPath f)))"
| "fails_of env base f (Called (Create p) (Some e)) = (p = fp_Join env base (RelPath f))"
| "fails_of env base f (Called (Write p c) (Some e)) = (p = fp_Join env base (RelPath f))"
| "fails_of env base f ev = False"

text \<open>Of these, the two that come before \<open>Create\<close>; and \<open>Create\<close> of a remote path.\<close>

fun early_fails_of :: "os_env \<Rightarrow> string \<Rightarrow> FileInfo \<Rightarrow> event \<Rightarrow> bool" where
  "early_fails_of env base f (Opened p (Some e)) = (p = Path f)"
| "early_fails_of env base f (Called (MkdirAll p) (Some e)) = (p = fp_Dir env (fp_Join env base (RelPath f)))"
| "early_fails_of env base f ev = False"

fun is_create_of :: "string \<Rightarrow> event \<Rightarrow> bool" where
  "is_create_of x (Called (Create p) e) = (p = x)"
| "is_create_of x ev = False"

definition same_paths :: "os_env \<Rightarrow> string \<Rightarrow> FileInfo \<Rightarrow> FileInfo \<Rightarrow> bool" where
  "same_paths env base f g \<longleftrightarrow>
     \<not> IsDir g \<and> Path g = Path f \<and> fp_Join env base (RelPath g) = fp_Join env base (RelPath f)"

text \<open>The two kinds of errors that a worker sends: for a directory entry (line 303) and
  for a file entry (line 309). They are told apart by how they begin.\<close>

definition is_mkdir_err :: "string \<Rightarrow> bool" where
  "is_mkdir_err m \<longleftrightarrow> take 34 m = ''failed to create remote directory ''"

definition is_upload_err :: "string \<Rightarrow> bool" where
  "is_upload_err m \<longleftrightarrow> take 22 m = ''failed to upload file ''"

text \<open>The remote paths that a request names. A server leaves alone what \<open>obs\<close> shows of
  its state when no request that names only paths \<open>outside\<close> changes it.\<close>

fun paths_of :: "rop \<Rightarrow> string list" where
  "paths_of (Stat p) = [p]"
| "paths_of (MkdirAll p) = [p]"
| "paths_of (Create p) = [p]"
| "paths_of (Write p c) = [p]"
| "paths_of (Close p) = [p]"
| "paths_of (Chmod p m) = [p]"
| "paths_of (Chtimes p a t) = [p]"
| "paths_of (Rename p q) = [p, q]"
| "paths_of (RemoveDirectory p) = [p]"

definition frame_ok :: "(string \<Rightarrow> bool) \<Rightarrow> ('r \<Rightarrow> 'o) \<Rightarrow> 'r sftp \<Rightarrow> bool" where
  "frame_ok outside obs c \<longleftrightarrow>
     (\<forall>op r. list_all outside (paths_of op) \<longrightarrow> obs (snd (c op r)) = obs r)"

text \<open>The remote paths that a pool run on \<open>files\<close> under \<open>base\<close> may name: for a file entry
  its own path, for \<open>MkdirAll\<close> the path of a directory entry or the parent of a file entry.\<close>

definition file_paths :: "os_env \<Rightarrow> string \<Rightarrow> FileInfo list \<Rightarrow> string list" where
  "file_paths env base files =
     map (\<lambda>f. fp_Join env base (RelPath f)) (filter (\<lambda>f. \<not> IsDir f) files)"

definition dir_paths :: "os_env \<Rightarrow> string \<Rightarrow> FileInfo list \<Rightarrow> string list" where
  "dir_paths env base files =
     map (\<lambda>f. fp_Join env base (RelPath f)) (filter IsDir files)
     @ map (\<lambda>f. fp_Dir env (fp_Join env base (RelPath f))) (filter (\<lambda>f. \<not> IsDir f) files)"

text \<open>What a call of a pool run may be: no \<open>Stat\<close>, no \<open>Rename\<close>, no \<open>RemoveDirectory\<close>;
  every other request on a path of a local entry; \<open>Chmod\<close> with mode 0644; \<open>Chtimes\<close> with
  the entry's own modification time.\<close>

fun pool_event :: "os_env \<Rightarrow> string \<Rightarrow> FileInfo list \<Rightarrow> event \<Rightarrow> bool" where
  "pool_event env base files (Called (MkdirAll p) e) = (p \<in> set (dir_paths env base files))"
| "pool_event env base files (Called (Create p) e) = (p \<in> set (file_paths env base files))"
| "pool_event env base files (Called (Write p c) e) = (p \<in> set (file_paths env base files))"
| "pool_event env base files (Called (Close p) e) = (p \<in> set (file_paths env base files))"
| "pool_event env base files (Called (Chmod p m) e) =
     (m = perm_0644 \<and> p \<in> set (file_paths env base files))"
| "pool_event env base files (Called (Chtimes p a t) e) =
     (\<exists>f \<in> set files. \<not> IsDir f \<and> p = fp_Join env base (RelPath f) \<and> t = ModTime f)"
| "pool_event env base files (Called (Stat p) e) = False"
| "pool_event env base files (Called (Rename p q) e) = False"
| "pool_event env base files (Called (RemoveDirectory p) e) = False"
| "pool_event env base files (Opened p e) = (\<exists>f \<in> set files. \<not> IsDir f \<and> p = Path f)"
| "pool_event env base files (ReadChunk p n e) = (\<exists>f \<in> set files. \<not> IsDir f \<and> p = Path f)"

text \<open>What a call of an incremental run may be: \<open>MkdirAll\<close> of the target, or a call of the
  pool on the local entries.\<close>

definition incr_event :: "os_env \<Rightarrow> string \<Rightarrow> FileInfo list \<Rightarrow> event \<Rightarrow> bool" where
  "incr_event env target files ev \<longleftrightarrow> is_mkdir_of target ev \<or> pool_event env target files ev"

text \<open>\<open>Chmod\<close> with mode 0644 on the remote path of a file entry; \<open>Chtimes\<close> on the remote
  path of a file entry, with that entry's modification time.\<close>

fun meta_call :: "os_env \<Rightarrow> string \<Rightarrow> FileInfo list \<Rightarrow> event \<Rightarrow> bool" where
  "meta_call env base files (Called (Chmod p m) e) =
     (m = perm_0644 \<and> p \<in> set (file_paths env base files))"
| "meta_call env base files (Called (Chtimes p a t) e) =
     (\<exists>f \<in> set files. \<not> IsDir f \<and> p = fp_Join env base (RelPath f) \<and> t = ModTime f)"
| "meta_call env base files ev = True"

text \<open>The entries that \<open>collectLocalFiles\<close> returns (none when it fails); they do not depend
  on what has been logged.\<close>

definition local_entries :: "os_env \<Rightarrow> 'r Syncer \<Rightarrow> FileInfo list" where
  "local_entries env s = (case fst (collectLocalFiles env s) of Inl e \<Rightarrow> [] | Inr files \<Rightarrow> files)"

text \<open>The state in which \<open>fullSync\<close> starts the upload, and the state in which it starts the
  swap, when it gets there.\<close>

definition staged :: "os_env \<Rightarrow> 'r Syncer \<Rightarrow> 'r Syncer" where
  "staged env s = snd (snd (projr (fullSync_stage env s)))"

definition backed_up :: "os_env \<Rightarrow> 'r Syncer \<Rightarrow> 'r Syncer" where
  "backed_up env s = snd (projr (fullSync_mkbackup env s))"

text \<open>The bytes a local file hands to the copy loop before the loop ends by itself: the
  chunks up to the first \<open>Read\<close> that returns an error or \<open>io.EOF\<close>.\<close>

fun delivered :: "script \<Rightarrow> nat" where
  "delivered [] = 0"
| "delivered ((c, e) # rest) = length c + (if e = RNil then delivered rest else 0)"

definition local_bytes :: "os_env \<Rightarrow> FileInfo \<Rightarrow> int" where
  "local_bytes env f = (if IsDir f then 0 else int (delivered (script_of env f)))"

section \<open>Quantities and invariants of the pool\<close>

text \<open>The entry a worker is busy with, and whether it is of the kind its state is for.\<close>

fun wentry_ok :: "FileInfo list \<Rightarrow> wstate \<Rightarrow> bool" where
  "wentry_ok files WRecv = True"
| "wentry_ok files (WSend m) = True"
| "wentry_ok files WExited = True"
| "wentry_ok files (WMkdir f) = (f \<in> set files \<and> IsDir f)"
| "wentry_ok files (WOpen f) = (f \<in> set files \<and> \<not> IsDir f)"
| "wentry_ok files (WParent f sc) = (f \<in> set files \<and> \<not> IsDir f)"
| "wentry_ok files (WCreate f sc) = (f \<in> set files \<and> \<not> IsDir f)"
| "wentry_ok files (WRead f sc) = (f \<in> set files \<and> \<not> IsDir f)"
| "wentry_ok files (WWrite f c e sc) = (f \<in> set files \<and> \<not> IsDir f)"
| "wentry_ok files (WCount f n e sc) = (f \<in> set files \<and> \<not> IsDir f)"
| "wentry_ok files (WChmod f) = (f \<in> set files \<and> \<not> IsDir f)"
| "wentry_ok files (WNow f) = (f \<in> set files \<and> \<not> IsDir f)"
| "wentry_ok files (WChtimes f t) = (f \<in> set files \<and> \<not> IsDir f)"
| "wentry_ok files (WClose f r) = (f \<in> set files \<and> \<not> IsDir f)"

text \<open>Errors on their way to the error channel, for the accounting of the errors sent
  against the failed calls: a failed call is followed by at least one half and at most one
  error (a \<open>Read\<close> that returns bytes and an error is followed by a \<open>Write\<close>, which may
  fail too).\<close>

fun pend_lo :: "wstate \<Rightarrow> int" where
  "pend_lo (WSend m) = 1"
| "pend_lo (WClose f (Some m)) = 1"
| "pend_lo (WWrite f c e rest) = (if is_rerr e then 1 else 0)"
| "pend_lo (WCount f n e rest) = (if is_rerr e then 1 else 0)"
| "pend_lo w = 0"

fun pend_hi :: "wstate \<Rightarrow> int" where
  "pend_hi (WSend m) = 2"
| "pend_hi (WClose f (Some m)) = 2"
| "pend_hi (WWrite f c e rest) = (if is_rerr e then 1 else 0)"
| "pend_hi (WCount f n e rest) = (if is_rerr e then 1 else 0)"
| "pend_hi w = 0"

text \<open>Where a worker is, as a number, for the accounting of attempts and calls.\<close>

fun at_open :: "string \<Rightarrow> wstate \<Rightarrow> int" where
  "at_open x (WOpen f) = (if Path f = x then 1 else 0)"
| "at_open x w = 0"

fun at_mkdir :: "os_env \<Rightarrow> string \<Rightarrow> string \<Rightarrow> wstate \<Rightarrow> int" where
  "at_mkdir env base p (WMkdir f) = (if fp_Join env base (RelPath f) = p then 1 else 0)"
| "at_mkdir env base p w = 0"

fun at_chtimes :: "os_env \<Rightarrow> string \<Rightarrow> string \<Rightarrow> wstate \<Rightarrow> int" where
  "at_chtimes env base p (WNow f) = (if fp_Join env base (RelPath f) = p then 1 else 0)"
| "at_chtimes env base p (WChtimes f t) = (if fp_Join env base (RelPath f) = p then 1 else 0)"
| "at_chtimes env base p w = 0"

text \<open>The calls made since the trace was \<open>t0\<close> are calls on the entries; the queue and the
  workers hold entries of \<open>files\<close> only.\<close>

definition pool_inv :: "os_env \<Rightarrow> string \<Rightarrow> FileInfo list \<Rightarrow> event list \<Rightarrow> 'r pool \<Rightarrow> bool" where
  "pool_inv env base files t0 q \<longleftrightarrow>
     set (jobs q) \<subseteq> set files \<and> (\<forall>w \<in> set (ws q). wentry_ok files w)
     \<and> (\<exists>evs. trace (sy q) = t0 @ evs \<and> (\<forall>ev \<in> set evs. pool_event env base files ev))"

text \<open>A worker that has read the clock for its \<open>Chtimes\<close> call and not yet made the call.\<close>

fun holds_reading :: "time \<Rightarrow> wstate \<Rightarrow> int" where
  "holds_reading t (WChtimes f a) = (if a = t then 1 else 0)"
| "holds_reading t w = 0"

text \<open>A worker that has a file entry (one that \<open>P\<close> selects) in hand and has neither
  called \<open>Chmod\<close> for it nor met a failure; a worker on its way to send the error of a
  file entry, or of a directory entry; a worker about to call \<open>MkdirAll\<close> for a directory
  entry, \<open>MkdirAll\<close> for the parent of a file, \<open>Create\<close>.\<close>

fun copying :: "(FileInfo \<Rightarrow> bool) \<Rightarrow> wstate \<Rightarrow> int" where
  "copying P (WOpen f) = (if P f then 1 else 0)"
| "copying P (WParent f sc) = (if P f then 1 else 0)"
| "copying P (WCreate f sc) = (if P f then 1 else 0)"
| "copying P (WRead f sc) = (if P f then 1 else 0)"
| "copying P (WWrite f c e rest) = (if P f then 1 else 0)"
| "copying P (WCount f n e rest) = (if P f then 1 else 0)"
| "copying P (WChmod f) = (if P f then 1 else 0)"
| "copying P w = 0"

text \<open>A worker that has such a file entry in hand and has not called \<open>Create\<close> yet.\<close>

fun before_create :: "(FileInfo \<Rightarrow> bool) \<Rightarrow> wstate \<Rightarrow> int" where
  "before_create P (WOpen f) = (if P f then 1 else 0)"
| "before_create P (WParent f sc) = (if P f then 1 else 0)"
| "before_create P (WCreate f sc) = (if P f then 1 else 0)"
| "before_create P w = 0"

text \<open>The same as \<open>copying\<close>, as long as no \<open>Read\<close> of the file has returned an error.\<close>

fun sound :: "(FileInfo \<Rightarrow> bool) \<Rightarrow> wstate \<Rightarrow> int" where
  "sound P (WOpen f) = (if P f then 1 else 0)"
| "sound P (WParent f sc) = (if P f then 1 else 0)"
| "sound P (WCreate f sc) = (if P f then 1 else 0)"
| "sound P (WRead f sc) = (if P f then 1 else 0)"
| "sound P (WWrite f c e rest) = (if P f \<and> \<not> is_rerr e then 1 else 0)"
| "sound P (WCount f n e rest) = (if P f \<and> \<not> is_rerr e then 1 else 0)"
| "sound P (WChmod f) = (if P f then 1 else 0)"
| "sound P w = 0"

fun upload_failing :: "wstate \<Rightarrow> int" where
  "upload_failing (WClose f (Some m)) = 1"
| "upload_failing (WSend m) = (if is_upload_err m then 1 else 0)"
| "upload_failing w = 0"

fun mkdir_failing :: "wstate \<Rightarrow> int" where
  "mkdir_failing (WSend m) = (if is_mkdir_err m then 1 else 0)"
| "mkdir_failing w = 0"

fun other_error :: "wstate \<Rightarrow> int" where
  "other_error (WSend m) = (if is_mkdir_err m \<or> is_upload_err m then 0 else 1)"
| "other_error w = 0"

fun at_dir :: "wstate \<Rightarrow> int" where
  "at_dir (WMkdir f) = 1"
| "at_dir w = 0"

fun at_parent :: "wstate \<Rightarrow> int" where
  "at_parent (WParent f sc) = 1"
| "at_parent w = 0"

fun at_create :: "wstate \<Rightarrow> int" where
  "at_create (WCreate f sc) = 1"
| "at_create w = 0"

text \<open>A worker about to read the clock; a worker about to call \<open>Chtimes\<close>.\<close>

fun at_now :: "wstate \<Rightarrow> int" where
  "at_now (WNow f) = 1"
| "at_now w = 0"

fun at_call_chtimes :: "wstate \<Rightarrow> int" where
  "at_call_chtimes (WChtimes f t) = 1"
| "at_call_chtimes w = 0"

text \<open>A worker between its \<open>Chmod\<close> and its \<open>Chtimes\<close>.\<close>

fun between_meta :: "wstate \<Rightarrow> int" where
  "between_meta (WNow f) = 1"
| "between_meta (WChtimes f t) = 1"
| "between_meta w = 0"

text \<open>The bytes written and not yet counted, and the bytes a worker will still count for its
  file if no call fails; \<open>outstanding\<close> adds the bytes of the files in the queue.\<close>

fun pending_count :: "wstate \<Rightarrow> int" where
  "pending_count (WCount f n e rest) = int n"
| "pending_count w = 0"

fun remaining :: "os_env \<Rightarrow> wstate \<Rightarrow> int" where
  "remaining env (WOpen f) = int (delivered (script_of env f))"
| "remaining env (WParent f sc) = int (delivered sc)"
| "remaining env (WCreate f sc) = int (delivered sc)"
| "remaining env (WRead f sc) = int (delivered sc)"
| "remaining env (WWrite f c e rest) = int (delivered ((c, e) # rest))"
| "remaining env (WCount f n e rest) = int n + (if e = RNil then int (delivered rest) else 0)"
| "remaining env w = 0"

definition queued_bytes :: "os_env \<Rightarrow> FileInfo list \<Rightarrow> int" where
  "queued_bytes env fs = (\<Sum>f\<leftarrow>fs. local_bytes env f)"

definition outstanding :: "os_env \<Rightarrow> 'r pool \<Rightarrow> int" where
  "outstanding env q = (\<Sum>w\<leftarrow>ws q. remaining env w) + queued_bytes env (jobs q)"

text \<open>The counter between \<open>lo\<close> and \<open>hi\<close>: it is \<open>lo\<close> plus the bytes written and counted,
  and with what is outstanding it stays at \<open>hi\<close> until a call fails.\<close>

definition byte_inv :: "os_env \<Rightarrow> int \<Rightarrow> int \<Rightarrow> event list \<Rightarrow> 'r pool \<Rightarrow> bool" where
  "byte_inv env lo hi t0 q \<longleftrightarrow>
     lo \<le> syncedSize (sy q) \<and> syncedSize (sy q) + outstanding env q \<le> hi
     \<and> (\<exists>evs. trace (sy q) = t0 @ evs
          \<and> syncedSize (sy q) + (\<Sum>w\<leftarrow>ws q. pending_count w) = lo + written evs
          \<and> ((\<forall>ev \<in> set evs. \<not> transfer_failure ev) \<longrightarrow>
               syncedSize (sy q) + outstanding env q = hi))"

section \<open>An example server and an example environment\<close>

text \<open>
  A server in memory, for running the engine on concrete inputs: a list of paths with
  what is there, and a list of requests that are made to fail. \<open>RemoveDirectory\<close> removes
  the directory and what is under it, as the specification describes the port.
\<close>

datatype node = NDir | NFile string nat time time

record mem =
  nodes :: "(string \<times> node) list"
  faults :: "(rop \<times> string) list"

definition put :: "string \<Rightarrow> node \<Rightarrow> mem \<Rightarrow> mem" where
  "put p v m =
     m\<lparr>nodes := (if p \<in> fst ` set (nodes m)
                 then map (\<lambda>(k, x). if k = p then (k, v) else (k, x)) (nodes m)
                 else nodes m @ [(p, v)])\<rparr>"

definition below :: "string \<Rightarrow> string \<Rightarrow> bool" where
  "below a k \<longleftrightarrow> k = a \<or> take (Suc (length a)) k = a @ ''/''"

fun mem_do :: "rop \<Rightarrow> mem \<Rightarrow> string option \<times> mem" where
  "mem_do (Stat p) m =
     (if p \<in> fst ` set (nodes m) then (None, m) else (Some ''file does not exist'', m))"
| "mem_do (MkdirAll p) m =
     (case map_of (nodes m) p of
        Some (NFile d mo a t) \<Rightarrow> (Some ''not a directory'', m)
      | Some NDir \<Rightarrow> (None, m)
      | None \<Rightarrow> (None, put p NDir m))"
| "mem_do (Create p) m =
     (case map_of (nodes m) p of
        Some NDir \<Rightarrow> (Some ''is a directory'', m)
      | _ \<Rightarrow> (None, put p (NFile [] 0 0 0) m))"
| "mem_do (Write p c) m =
     (case map_of (nodes m) p of
        Some (NFile d mo a t) \<Rightarrow> (None, put p (NFile (d @ c) mo a t) m)
      | _ \<Rightarrow> (Some ''bad handle'', m))"
| "mem_do (Close p) m = (None, m)"
| "mem_do (Chmod p mo') m =
     (case map_of (nodes m) p of
        Some (NFile d mo a t) \<Rightarrow> (None, put p (NFile d mo' a t) m)
      | Some NDir \<Rightarrow> (None, m)
      | None \<Rightarrow> (Some ''file does not exist'', m))"
| "mem_do (Chtimes p a' t') m =
     (case map_of (nodes m) p of
        Some (NFile d mo a t) \<Rightarrow> (None, put p (NFile d mo a' t') m)
      | Some NDir \<Rightarrow> (None, m)
      | None \<Rightarrow> (Some ''file does not exist'', m))"
| "mem_do (Rename a b) m =
     (if a \<notin> fst ` set (nodes m) then (Some ''file does not exist'', m)
      else if b \<in> fst ` set (nodes m) then (Some ''file exists'', m)
      else (None, m\<lparr>nodes := map (\<lambda>(k, x). (if below a k then b @ drop (length a) k else k, x))
                                 (nodes m)\<rparr>))"
| "mem_do (RemoveDirectory p) m =
     (if p \<notin> fst ` set (nodes m) then (Some ''file does not exist'', m)
      else (None, m\<lparr>nodes := filter (\<lambda>(k, x). \<not> below p k) (nodes m)\<rparr>))"

text \<open>Two paths of which neither is at or below the other.\<close>

definition apart :: "string \<Rightarrow> string \<Rightarrow> bool" where
  "apart a p \<longleftrightarrow> \<not> below a p \<and> \<not> below p a"

text \<open>What the server holds at and below a path.\<close>

definition subtree :: "string \<Rightarrow> mem \<Rightarrow> (string \<times> node) list" where
  "subtree a m = filter (\<lambda>(k, x). below a k) (nodes m)"

definition mem_client :: "mem sftp" where
  "mem_client op m = (case map_of (faults m) op of Some e \<Rightarrow> (Some e, m) | None \<Rightarrow> mem_do op m)"

fun dec :: "nat \<Rightarrow> string" where
  "dec n = (if n < 10 then [char_of (48 + n)] else dec (n div 10) @ [char_of (48 + n mod 10)])"

definition ex_Rel :: "string \<Rightarrow> string \<Rightarrow> string + string" where
  "ex_Rel lp p =
     (if p = lp then Inr ''.''
      else if take (Suc (length lp)) p = lp @ ''/'' then Inr (drop (Suc (length lp)) p)
      else Inl ''Rel: no relative path'')"

definition ex_env :: "visit list \<Rightarrow> (string \<times> script) list \<Rightarrow> nat list \<Rightarrow> os_env" where
  "ex_env visits files is =
     \<lparr>fp_Walk = (\<lambda>root. visits),
      fp_Rel = ex_Rel,
      fp_Join = (\<lambda>a b. a @ ''/'' @ b),
      fp_Dir = (\<lambda>p. rev (drop 1 (dropWhile (\<lambda>c. c \<noteq> CHR ''/'') (rev p)))),
      os_Open = (\<lambda>p. case map_of files p of None \<Rightarrow> Inl ''no such file'' | Some sc \<Rightarrow> Inr sc),
      time_Now = (\<lambda>k. 1000 + int k),
      time_Format = (\<lambda>t. dec (nat t)),
      sched = is\<rparr>"

text \<open>A local tree \<open>/l\<close> with a file \<open>a\<close> of five bytes, read in two chunks, a directory
  \<open>d\<close> and a file \<open>d/b\<close> of two bytes, read in one chunk together with \<open>io.EOF\<close>.\<close>

definition ex_visits :: "visit list" where
  "ex_visits =
     [(''/l'', \<lparr>info_Size = 0, info_ModTime = 5, info_IsDir = True\<rparr>, None),
      (''/l/a'', \<lparr>info_Size = 5, info_ModTime = 7, info_IsDir = False\<rparr>, None),
      (''/l/d'', \<lparr>info_Size = 0, info_ModTime = 8, info_IsDir = True\<rparr>, None),
      (''/l/d/b'', \<lparr>info_Size = 2, info_ModTime = 9, info_IsDir = False\<rparr>, None)]"

definition ex_files :: "(string \<times> script) list" where
  "ex_files =
     [(''/l/a'', [(''abc'', RNil), (''de'', RNil)]),
      (''/l/d/b'', [(''hi'', REOF)])]"

definition ex_a :: FileInfo where
  "ex_a = \<lparr>Path = ''/l/a'', RelPath = ''a'', Size = 5, ModTime = 7, IsDir = False\<rparr>"

definition ex_d :: FileInfo where
  "ex_d = \<lparr>Path = ''/l/d'', RelPath = ''d'', Size = 0, ModTime = 8, IsDir = True\<rparr>"

definition ex_b :: FileInfo where
  "ex_b = \<lparr>Path = ''/l/d/b'', RelPath = ''d/b'', Size = 2, ModTime = 9, IsDir = False\<rparr>"

definition ex_syncer :: "string \<Rightarrow> int \<Rightarrow> mem \<Rightarrow> mem Syncer" where
  "ex_syncer md n m =
     New mem_client m \<lparr>LocalPath = ''/l'', RemotePath = ''/r/w'', Mode = md, Workers = n\<rparr>"

text \<open>A server that already holds the target \<open>/r/w\<close> with one old file in it.\<close>

definition ex_remote :: mem where
  "ex_remote = \<lparr>nodes = [(''/r/w'', NDir), (''/r/w/old'', NFile ''x'' 420 0 0)], faults = []\<rparr>"

text \<open>Two environments: the local tree with the file \<open>a\<close> only, and the whole tree with an
  order of steps for two workers. All runs use the local root \<open>/l\<close> and the target
  \<open>/r/w\<close>.\<close>

definition ex_env1 :: os_env where
  "ex_env1 = ex_env (take 2 ex_visits) ex_files []"

definition ex_env3 :: os_env where
  "ex_env3 = ex_env ex_visits ex_files [0, 1, 1, 0]"

text \<open>Two more orders of steps. In the first, worker 0 takes every step until it returns.
  In the second, worker 0 works on its entry until it has read the clock for \<open>Chtimes\<close>,
  then worker 1 works on its entry until it has called \<open>Chtimes\<close>; only then worker 0
  makes its call.\<close>

definition ex_env_seq :: os_env where
  "ex_env_seq = ex_env ex_visits ex_files (replicate 40 0)"

definition ex_env_late :: os_env where
  "ex_env_late = ex_env ex_visits ex_files (replicate 13 0 @ replicate 10 1)"

definition ex_cfg :: "string \<Rightarrow> int \<Rightarrow> SyncConfig" where
  "ex_cfg md n = \<lparr>LocalPath = ''/l'', RemotePath = ''/r/w'', Mode = md, Workers = n\<rparr>"

definition ex_plain :: "int \<Rightarrow> mem Syncer" where
  "ex_plain n = New mem_client ex_remote (ex_cfg ''incremental'' n)"

text \<open>Servers that refuse one request or two, each with its \<open>Syncer\<close>.\<close>

definition ex_create_fails :: "mem Syncer" where
  "ex_create_fails =
     New mem_client (ex_remote\<lparr>faults := [(Create ''/r/w/a'', ''injected'')]\<rparr>) (ex_cfg ''incremental'' 2)"

definition ex_meta_fails :: "mem Syncer" where
  "ex_meta_fails =
     New mem_client (ex_remote\<lparr>faults := [(Chmod ''/r/w/a'' 420, ''denied''),
                                           (Chtimes ''/r/w/a'' 1000 7, ''denied'')]\<rparr>)
       (ex_cfg ''incremental'' 1)"

definition ex_write_fails :: "mem Syncer" where
  "ex_write_fails =
     New mem_client (ex_remote\<lparr>faults := [(Write ''/r/w/a'' ''de'', ''injected'')]\<rparr>)
       (ex_cfg ''incremental'' 1)"

definition ex_staged_write_fails :: "mem Syncer" where
  "ex_staged_write_fails =
     New mem_client (ex_remote\<lparr>faults := [(Write ''/r/.sync_tmp_1000/a'' ''de'', ''injected'')]\<rparr>)
       (ex_cfg ''full'' 1)"

definition ex_restore_fails :: "mem Syncer" where
  "ex_restore_fails =
     New mem_client (ex_remote\<lparr>faults := [(Rename ''/r/.sync_tmp_1000'' ''/r/w'', ''swap refused''),
                                           (Rename ''/r/w.bak_1002'' ''/r/w'', ''restore refused'')]\<rparr>)
       (ex_cfg ''full'' 1)"

text \<open>The target given with a trailing slash, on a server that refuses the second chunk of
  \<open>a\<close> and refuses to remove the staging directory.\<close>

definition ex_slash_fails :: "mem Syncer" where
  "ex_slash_fails =
     New mem_client
       (ex_remote\<lparr>faults := [(Write ''/r/w/.sync_tmp_1000/a'' ''de'', ''injected''),
                              (RemoveDirectory ''/r/w/.sync_tmp_1000'', ''directory not empty'')]\<rparr>)
       \<lparr>LocalPath = ''/l'', RemotePath = ''/r/w/'', Mode = ''full'', Workers = 1\<rparr>"

text \<open>A server that already holds \<open>/r/w/a\<close> with the content, the size and the modification
  time of the local file \<open>/l/a\<close>, beside the old file.\<close>

definition ex_identical :: "mem Syncer" where
  "ex_identical =
     New mem_client
       \<lparr>nodes = [(''/r/w'', NDir), (''/r/w/old'', NFile ''x'' 420 0 0),
                 (''/r/w/a'', NFile ''abcde'' 420 1000 7)],
        faults = []\<rparr>
       (ex_cfg ''incremental'' 1)"

section \<open>Every run of the pool ends\<close>

lemma wstep_ws: "ws (snd (wstep env base w p)) = ws p"
  by (cases w) (auto simp: Let_def split: list.splits sum.splits prod.splits option.splits)

lemma after_read_weight:
  "wweight env (after_read file err rest) < 3 * length rest + 8"
  "wweight env (after_read file err rest) < 10 + 3 * length rest"
  by (cases err; simp)+

lemma wstep_weight:
  assumes "w \<noteq> WExited" "wstep env base w p = (w', p')"
  shows "wweight env w' + sum_list (map (job_weight env) (jobs p'))
       < wweight env w + sum_list (map (job_weight env) (jobs p))"
  using assms
  by (cases w)
     (auto simp: Let_def job_weight_def script_of_def after_read_weight
           split: list.splits sum.splits prod.splits option.splits if_splits)

lemma tick_eq:
  assumes "i < length (ws p)"
  shows "tick env base p i =
         (snd (wstep env base (ws p ! i) p))\<lparr>ws := (ws p)[i := fst (wstep env base (ws p ! i) p)]\<rparr>"
proof -
  obtain w' p' where st: "wstep env base (ws p ! i) p = (w', p')" by force
  then have "ws p' = ws p" using wstep_ws[of env base "ws p ! i" p] by simp
  then show ?thesis using assms st by (simp add: tick_def)
qed

lemma tick_weight:
  assumes "i < length (ws p)" "ws p ! i \<noteq> WExited"
  shows "pool_weight env (tick env base p i) < pool_weight env p"
proof -
  obtain w' p' where st: "wstep env base (ws p ! i) p = (w', p')" by force
  have t: "tick env base p i = p'\<lparr>ws := (ws p)[i := w']\<rparr>"
    using tick_eq[OF assms(1), of env base] st by simp
  have "sum_list (map (wweight env) ((ws p)[i := w']))
        = sum_list (map (wweight env) (ws p)) + wweight env w' - wweight env (ws p ! i)"
    using assms(1) by (simp add: map_update sum_list_update)
  moreover have "wweight env (ws p ! i) \<le> sum_list (map (wweight env) (ws p))"
    using assms(1) by (simp add: member_le_sum_list)
  ultimately show ?thesis
    using wstep_weight[OF assms(2) st] by (simp add: t pool_weight_def)
qed

lemma first_active_Some:
  "first_active xs = Some i \<Longrightarrow> i < length xs \<and> xs ! i \<noteq> WExited"
  by (induction xs arbitrary: i) (auto split: if_splits)

lemma first_active_None:
  "first_active xs = None \<longleftrightarrow> (\<forall>w \<in> set xs. w = WExited)"
  by (induction xs) auto

lemma weight_0_exited:
  assumes "pool_weight env p = 0"
  shows "\<forall>w \<in> set (ws p). w = WExited"
proof
  fix w assume w: "w \<in> set (ws p)"
  from assms have "sum_list (map (wweight env) (ws p)) = 0" by (simp add: pool_weight_def)
  with w have "wweight env w = 0" by (auto simp: sum_list_eq_0_iff)
  then show "w = WExited" by (cases w) auto
qed

lemma drain_done:
  "pool_weight env p \<le> n \<Longrightarrow> first_active (ws (drain env base n p)) = None"
proof (induction n arbitrary: p)
  case 0
  then show ?case using weight_0_exited[of env p] by (simp add: first_active_None)
next
  case (Suc n)
  show ?case
  proof (cases "first_active (ws p)")
    case None
    then show ?thesis by simp
  next
    case (Some i)
    from first_active_Some[OF Some] tick_weight[of i p env base] Suc.prems
    have "pool_weight env (tick env base p i) \<le> n" by simp
    from Suc.IH[OF this] Some show ?thesis by simp
  qed
qed

lemma run_pool_done: "\<forall>w \<in> set (ws (run_pool env base p)). w = WExited"
  using drain_done[of env "run_ticks env base (sched env) p"
          "pool_weight env (run_ticks env base (sched env) p)" base]
  by (simp add: run_pool_def Let_def first_active_None)

section \<open>Lifting a step property to the run\<close>

lemma tick_out_of_range: "\<not> i < length (ws p) \<Longrightarrow> tick env base p i = p"
  by (simp add: tick_def)

lemma run_ticks_induct:
  assumes "P p" and "\<And>q i. P q \<Longrightarrow> i < length (ws q) \<Longrightarrow> P (tick env base q i)"
  shows "P (run_ticks env base is p)"
  using assms(1)
proof (induction "is" arbitrary: p)
  case Nil
  then show ?case by (simp add: run_ticks_def)
next
  case (Cons i "is")
  have "P (tick env base p i)"
    using Cons.prems assms(2)[of p i] tick_out_of_range[of i p env base] by (cases "i < length (ws p)") auto
  from Cons.IH[OF this] show ?case by (simp add: run_ticks_def)
qed

lemma drain_induct:
  assumes "P p" and "\<And>q i. P q \<Longrightarrow> i < length (ws q) \<Longrightarrow> P (tick env base q i)"
  shows "P (drain env base n p)"
  using assms(1)
proof (induction n arbitrary: p)
  case 0
  then show ?case by simp
next
  case (Suc n)
  show ?case
  proof (cases "first_active (ws p)")
    case None
    with Suc.prems show ?thesis by simp
  next
    case (Some i)
    with first_active_Some[OF Some] Suc.prems assms(2)[of p i] Suc.IH[of "tick env base p i"]
    show ?thesis by simp
  qed
qed

lemma run_pool_induct:
  assumes "P p" and "\<And>q i. P q \<Longrightarrow> i < length (ws q) \<Longrightarrow> P (tick env base q i)"
  shows "P (run_pool env base p)"
  unfolding run_pool_def Let_def
  by (rule drain_induct[OF run_ticks_induct[OF assms] assms(2)])

lemma sum_list_map_update:
  fixes g :: "'a \<Rightarrow> int"
  assumes "i < length xs"
  shows "(\<Sum>x\<leftarrow>xs[i := y]. g x) = (\<Sum>x\<leftarrow>xs. g x) - g (xs ! i) + g y"
  using assms
proof (induction xs arbitrary: i)
  case Nil
  then show ?case by simp
next
  case (Cons x xs)
  then show ?case by (cases i) auto
qed

lemma tick_conserved:
  fixes A :: "'r pool \<Rightarrow> int" and g :: "wstate \<Rightarrow> int"
  assumes step: "\<And>w w' p'. wstep env base w p = (w', p') \<Longrightarrow> A p' + g w' = A p + g w"
      and upd: "\<And>q x. A (q\<lparr>ws := x\<rparr>) = A q"
      and i: "i < length (ws p)"
  shows "A (tick env base p i) + (\<Sum>w\<leftarrow>ws (tick env base p i). g w) = A p + (\<Sum>w\<leftarrow>ws p. g w)"
proof -
  obtain w' p' where st: "wstep env base (ws p ! i) p = (w', p')" by force
  have t: "tick env base p i = p'\<lparr>ws := (ws p)[i := w']\<rparr>"
    using tick_eq[OF i, of env base] st by simp
  show ?thesis
    using step[OF st] by (simp add: t upd sum_list_map_update[OF i])
qed

lemma tick_sy_ws [simp]: "sy (q\<lparr>ws := x\<rparr>) = sy q" "errors (q\<lparr>ws := x\<rparr>) = errors q" "jobs (q\<lparr>ws := x\<rparr>) = jobs q"
  by simp_all

lemma tick_monotone:
  fixes A :: "'r pool \<Rightarrow> int" and g :: "wstate \<Rightarrow> int"
  assumes step: "\<And>w w' p'. wstep env base w p = (w', p') \<Longrightarrow> A p + g w \<le> A p' + g w'"
      and upd: "\<And>q x. A (q\<lparr>ws := x\<rparr>) = A q"
      and i: "i < length (ws p)"
  shows "A p + (\<Sum>w\<leftarrow>ws p. g w) \<le> A (tick env base p i) + (\<Sum>w\<leftarrow>ws (tick env base p i). g w)"
proof -
  obtain w' p' where st: "wstep env base (ws p ! i) p = (w', p')" by force
  have t: "tick env base p i = p'\<lparr>ws := (ws p)[i := w']\<rparr>"
    using tick_eq[OF i, of env base] st by simp
  show ?thesis
    using step[OF st] by (simp add: t upd sum_list_map_update[OF i])
qed

lemma run_pool_conserved:
  fixes A :: "'r pool \<Rightarrow> int" and g :: "wstate \<Rightarrow> int"
  assumes step: "\<And>w q w' q'. wstep env base w q = (w', q') \<Longrightarrow> A q' + g w' = A q + g w"
      and upd: "\<And>q x. A (q\<lparr>ws := x\<rparr>) = A q"
  shows "A (run_pool env base p) + (\<Sum>w\<leftarrow>ws (run_pool env base p). g w)
       = A p + (\<Sum>w\<leftarrow>ws p. g w)"
proof (rule run_pool_induct[where P = "\<lambda>q. A q + (\<Sum>w\<leftarrow>ws q. g w) = A p + (\<Sum>w\<leftarrow>ws p. g w)"])
  show "A p + (\<Sum>w\<leftarrow>ws p. g w) = A p + (\<Sum>w\<leftarrow>ws p. g w)" by simp
next
  fix q i
  assume h: "A q + (\<Sum>w\<leftarrow>ws q. g w) = A p + (\<Sum>w\<leftarrow>ws p. g w)" and i: "i < length (ws q)"
  have "A (tick env base q i) + (\<Sum>w\<leftarrow>ws (tick env base q i). g w) = A q + (\<Sum>w\<leftarrow>ws q. g w)"
    by (rule tick_conserved[OF step upd i])
  with h show "A (tick env base q i) + (\<Sum>w\<leftarrow>ws (tick env base q i). g w)
             = A p + (\<Sum>w\<leftarrow>ws p. g w)" by simp
qed

lemma run_pool_monotone:
  fixes A :: "'r pool \<Rightarrow> int" and g :: "wstate \<Rightarrow> int"
  assumes step: "\<And>w q w' q'. wstep env base w q = (w', q') \<Longrightarrow> A q + g w \<le> A q' + g w'"
      and upd: "\<And>q x. A (q\<lparr>ws := x\<rparr>) = A q"
  shows "A p + (\<Sum>w\<leftarrow>ws p. g w)
       \<le> A (run_pool env base p) + (\<Sum>w\<leftarrow>ws (run_pool env base p). g w)"
proof (rule run_pool_induct[where P = "\<lambda>q. A p + (\<Sum>w\<leftarrow>ws p. g w) \<le> A q + (\<Sum>w\<leftarrow>ws q. g w)"])
  show "A p + (\<Sum>w\<leftarrow>ws p. g w) \<le> A p + (\<Sum>w\<leftarrow>ws p. g w)" by simp
next
  fix q i
  assume h: "A p + (\<Sum>w\<leftarrow>ws p. g w) \<le> A q + (\<Sum>w\<leftarrow>ws q. g w)" and i: "i < length (ws q)"
  have "A q + (\<Sum>w\<leftarrow>ws q. g w) \<le> A (tick env base q i) + (\<Sum>w\<leftarrow>ws (tick env base q i). g w)"
    by (rule tick_monotone[OF step upd i])
  with h show "A p + (\<Sum>w\<leftarrow>ws p. g w)
             \<le> A (tick env base q i) + (\<Sum>w\<leftarrow>ws (tick env base q i). g w)" by simp
qed

lemma sum_exited:
  fixes g :: "wstate \<Rightarrow> int"
  assumes "\<forall>w \<in> set xs. w = WExited" "g WExited = 0"
  shows "(\<Sum>w\<leftarrow>xs. g w) = 0"
  using assms by (induction xs) auto

lemma sum_init:
  fixes g :: "wstate \<Rightarrow> int"
  assumes "g WRecv = 0"
  shows "(\<Sum>w\<leftarrow>ws (init_pool s files). g w) = 0"
  using assms by (simp add: init_pool_def sum_list_replicate)

text \<open>Both ends of a run: every worker at the receive at the start, returned at the end.\<close>

lemma run_pool_ends_conserved:
  fixes A :: "'r pool \<Rightarrow> int" and g :: "wstate \<Rightarrow> int"
  assumes step: "\<And>w q w' q'. wstep env base w q = (w', q') \<Longrightarrow> A q' + g w' = A q + g w"
      and upd: "\<And>q x. A (q\<lparr>ws := x\<rparr>) = A q"
      and g0: "g WRecv = 0" "g WExited = 0"
  shows "A (run_pool env base (init_pool s files)) = A (init_pool s files)"
  using run_pool_conserved[of env base A g "init_pool s files", OF step upd]
        sum_exited[of "ws (run_pool env base (init_pool s files))" g,
                   OF run_pool_done[of env base "init_pool s files"] g0(2)]
        sum_init[of g s files, OF g0(1)]
  by simp

lemma run_pool_ends_monotone:
  fixes A :: "'r pool \<Rightarrow> int" and g :: "wstate \<Rightarrow> int"
  assumes step: "\<And>w q w' q'. wstep env base w q = (w', q') \<Longrightarrow> A q + g w \<le> A q' + g w'"
      and upd: "\<And>q x. A (q\<lparr>ws := x\<rparr>) = A q"
      and g0: "g WRecv = 0" "g WExited = 0"
  shows "A (init_pool s files) \<le> A (run_pool env base (init_pool s files))"
  using run_pool_monotone[of env base A g "init_pool s files", OF step upd]
        sum_exited[of "ws (run_pool env base (init_pool s files))" g,
                   OF run_pool_done[of env base "init_pool s files"] g0(2)]
        sum_init[of g s files, OF g0(1)]
  by simp

lemmas wstep_splits = list.splits sum.splits prod.splits option.splits if_splits

lemmas call_defs = Let_def call_def logf_def now_def record_ev_def

lemma after_read_pend_lo:
  "pend_lo (after_read f e rest) = (if is_rerr e then 1 else 0)"
  "pend_hi (after_read f e rest) = (if is_rerr e then 2 else 0)"
  by (cases e; simp)+

lemma wstep_err_lo:
  assumes "wstep env base w q = (w', q')"
  shows "int (length (filter transfer_failure (trace (sy q)))) - int (length (errors q)) + - pend_lo w
       \<le> int (length (filter transfer_failure (trace (sy q')))) - int (length (errors q')) + - pend_lo w'"
  using assms
  by (cases w) (auto simp: call_defs after_read_pend_lo split: wstep_splits)

lemma wstep_err_hi:
  assumes "wstep env base w q = (w', q')"
  shows "2 * int (length (errors q)) - int (length (filter transfer_failure (trace (sy q)))) + pend_hi w
       \<le> 2 * int (length (errors q')) - int (length (filter transfer_failure (trace (sy q')))) + pend_hi w'"
  using assms
  by (cases w) (auto simp: call_defs after_read_pend_lo split: wstep_splits)

section \<open>The queue is emptied\<close>

lemma after_read_not_exited [simp]: "after_read f e rest \<noteq> WExited"
  by (cases e) auto

lemma wstep_jobs:
  assumes "wstep env base w q = (w', q')"
  shows "(jobs q = [] \<longrightarrow> jobs q' = []) \<and> (w' = WExited \<longrightarrow> jobs q' = [] \<or> w = WExited)"
  using assms by (cases w) (auto simp: call_defs split: wstep_splits)

lemma tick_length_ws: "length (ws (tick env base q i)) = length (ws q)"
  by (cases "i < length (ws q)") (simp_all add: tick_eq tick_out_of_range)

lemma tick_exited_jobs:
  assumes inv: "WExited \<in> set (ws q) \<longrightarrow> jobs q = []" and i: "i < length (ws q)"
  shows "WExited \<in> set (ws (tick env base q i)) \<longrightarrow> jobs (tick env base q i) = []"
proof
  obtain w' q' where st: "wstep env base (ws q ! i) q = (w', q')" by force
  have t: "tick env base q i = q'\<lparr>ws := (ws q)[i := w']\<rparr>"
    using tick_eq[OF i, of env base] st by simp
  assume "WExited \<in> set (ws (tick env base q i))"
  then have "WExited \<in> insert w' (set (ws q))"
    using set_update_subset_insert[of "ws q" i w'] by (auto simp: t)
  moreover have "ws q ! i \<in> set (ws q)" using i by simp
  ultimately have "jobs q' = []"
    using wstep_jobs[OF st] inv by auto
  then show "jobs (tick env base q i) = []" by (simp add: t)
qed

lemma run_pool_jobs_empty:
  assumes "0 < workers s"
  shows "jobs (run_pool env base (init_pool s files)) = []"
proof -
  let ?p = "init_pool s files"
  have "(WExited \<in> set (ws (run_pool env base ?p)) \<longrightarrow> jobs (run_pool env base ?p) = [])
        \<and> length (ws (run_pool env base ?p)) = length (ws ?p)"
  proof (rule run_pool_induct[of "\<lambda>q. (WExited \<in> set (ws q) \<longrightarrow> jobs q = []) \<and> length (ws q) = length (ws ?p)"])
    show "(WExited \<in> set (ws ?p) \<longrightarrow> jobs ?p = []) \<and> length (ws ?p) = length (ws ?p)"
      by (simp add: init_pool_def)
  next
    fix q :: "'a pool" and i
    assume h: "(WExited \<in> set (ws q) \<longrightarrow> jobs q = []) \<and> length (ws q) = length (ws ?p)"
       and i: "i < length (ws q)"
    from h have a: "WExited \<in> set (ws q) \<longrightarrow> jobs q = []" by simp
    show "(WExited \<in> set (ws (tick env base q i)) \<longrightarrow> jobs (tick env base q i) = [])
          \<and> length (ws (tick env base q i)) = length (ws ?p)"
      using tick_exited_jobs[OF a i, of env base] h by (simp add: tick_length_ws)
  qed
  moreover have "length (ws ?p) > 0" using assms by (simp add: init_pool_def)
  ultimately obtain w where "w \<in> set (ws (run_pool env base ?p))"
    and "WExited \<in> set (ws (run_pool env base ?p)) \<longrightarrow> jobs (run_pool env base ?p) = []"
    by (cases "ws (run_pool env base ?p)") auto
  with run_pool_done[of env base ?p] show ?thesis by auto
qed

section \<open>The trace and the log only grow\<close>

lemma wstep_grow:
  assumes "wstep env base w q = (w', q')"
  shows "\<exists>evs ls. trace (sy q') = trace (sy q) @ evs \<and> logger (sy q') = logger (sy q) @ ls"
  using assms by (cases w) (auto simp: call_defs split: wstep_splits)

lemma tick_grow:
  fixes q :: "'r pool"
  shows "\<exists>evs ls. trace (sy (tick env base q i)) = trace (sy q) @ evs
           \<and> logger (sy (tick env base q i)) = logger (sy q) @ ls"
proof (cases "i < length (ws q)")
  case True
  obtain w' q' where st: "wstep env base (ws q ! i) q = (w', q')" by force
  have t: "tick env base q i = q'\<lparr>ws := (ws q)[i := w']\<rparr>"
    using tick_eq[OF True, of env base] st by simp
  from wstep_grow[OF st] show ?thesis by (simp add: t)
next
  case False
  then show ?thesis by (simp add: tick_out_of_range)
qed

lemma run_pool_grow:
  fixes p :: "'r pool"
  shows "\<exists>evs ls. trace (sy (run_pool env base p)) = trace (sy p) @ evs
           \<and> logger (sy (run_pool env base p)) = logger (sy p) @ ls"
proof (rule run_pool_induct[of "\<lambda>q. \<exists>evs ls. trace (sy q) = trace (sy p) @ evs \<and> logger (sy q) = logger (sy p) @ ls"])
  show "\<exists>evs ls. trace (sy p) = trace (sy p) @ evs \<and> logger (sy p) = logger (sy p) @ ls" by simp
next
  fix q :: "'r pool" and i
  assume "\<exists>evs ls. trace (sy q) = trace (sy p) @ evs \<and> logger (sy q) = logger (sy p) @ ls"
  then obtain evs ls where a: "trace (sy q) = trace (sy p) @ evs" "logger (sy q) = logger (sy p) @ ls" by blast
  from tick_grow[of env base q i] obtain evs' ls' where
    b: "trace (sy (tick env base q i)) = trace (sy q) @ evs'"
       "logger (sy (tick env base q i)) = logger (sy q) @ ls'" by blast
  show "\<exists>evs ls. trace (sy (tick env base q i)) = trace (sy p) @ evs
              \<and> logger (sy (tick env base q i)) = logger (sy p) @ ls"
    using a b by simp
qed

lemma count_new:
  assumes "ys = xs @ zs"
  shows "int (length (filter P (drop (length xs) ys))) = int (length (filter P ys)) - int (length (filter P xs))"
  using assms by simp

lemma new_trace_count:
  "int (length (filter P (new_trace s (sy (run_pool env base (init_pool s files))))))
   = int (length (filter P (trace (sy (run_pool env base (init_pool s files))))))
     - int (length (filter P (trace s)))"
proof -
  from run_pool_grow[of env base "init_pool s files"] obtain evs where
    "trace (sy (run_pool env base (init_pool s files))) = trace s @ evs"
    by (auto simp: init_pool_def)
  then show ?thesis unfolding new_trace_def by (rule count_new)
qed

lemma new_logs_count:
  "int (length (filter P (new_logs s (sy (run_pool env base (init_pool s files))))))
   = int (length (filter P (logger (sy (run_pool env base (init_pool s files))))))
     - int (length (filter P (logger s)))"
proof -
  from run_pool_grow[of env base "init_pool s files"] obtain ls where
    "logger (sy (run_pool env base (init_pool s files))) = logger s @ ls"
    by (auto simp: init_pool_def)
  then show ?thesis unfolding new_logs_def by (rule count_new)
qed

section \<open>Errors against failed calls\<close>

lemma run_pool_errors_le:
  "int (length (errors (run_pool env base (init_pool s files))))
   \<le> int (length (filter transfer_failure (new_trace s (sy (run_pool env base (init_pool s files))))))"
proof -
  have "int (length (filter transfer_failure (trace (sy (init_pool s files))))) - int (length (errors (init_pool s files)))
     \<le> int (length (filter transfer_failure (trace (sy (run_pool env base (init_pool s files))))))
       - int (length (errors (run_pool env base (init_pool s files))))"
    by (rule run_pool_ends_monotone[of env base
          "\<lambda>q. int (length (filter transfer_failure (trace (sy q)))) - int (length (errors q))"
          "\<lambda>w. - pend_lo w"])
       (use wstep_err_lo in simp_all)
  then show ?thesis by (simp add: new_trace_count) (simp add: init_pool_def)
qed

lemma run_pool_errors_ge:
  "int (length (filter transfer_failure (new_trace s (sy (run_pool env base (init_pool s files))))))
   \<le> 2 * int (length (errors (run_pool env base (init_pool s files))))"
proof -
  have "2 * int (length (errors (init_pool s files))) - int (length (filter transfer_failure (trace (sy (init_pool s files)))))
     \<le> 2 * int (length (errors (run_pool env base (init_pool s files))))
       - int (length (filter transfer_failure (trace (sy (run_pool env base (init_pool s files))))))"
    by (rule run_pool_ends_monotone[of env base
          "\<lambda>q. 2 * int (length (errors q)) - int (length (filter transfer_failure (trace (sy q))))"
          pend_hi])
       (use wstep_err_hi in simp_all)
  then show ?thesis by (simp add: new_trace_count) (simp add: init_pool_def)
qed

section \<open>Every entry is attempted\<close>

lemma after_read_at [simp]:
  "at_open x (after_read f e rest) = 0" "at_mkdir env base p (after_read f e rest) = 0"
  "at_chtimes env base p (after_read f e rest) = 0"
  by (cases e; simp)+

lemma wstep_opens:
  assumes "wstep env base w q = (w', q')"
  shows "int (length (filter (opens x) (trace (sy q'))))
           + int (length (filter (\<lambda>f. \<not> IsDir f \<and> Path f = x) (jobs q'))) + at_open x w'
       = int (length (filter (opens x) (trace (sy q))))
           + int (length (filter (\<lambda>f. \<not> IsDir f \<and> Path f = x) (jobs q))) + at_open x w"
  using assms by (cases w) (auto simp: call_defs split: wstep_splits)

lemma wstep_mkdirs:
  assumes "wstep env base w q = (w', q')"
  shows "int (length (filter (announces p) (logger (sy q'))))
           + int (length (filter (\<lambda>f. IsDir f \<and> fp_Join env base (RelPath f) = p) (jobs q')))
           + at_mkdir env base p w'
       = int (length (filter (announces p) (logger (sy q))))
           + int (length (filter (\<lambda>f. IsDir f \<and> fp_Join env base (RelPath f) = p) (jobs q)))
           + at_mkdir env base p w"
  using assms by (cases w) (auto simp: call_defs split: wstep_splits)

lemma wstep_warnings:
  assumes "wstep env base w q = (w', q')"
  shows "int (length (filter is_warning (logger (sy q')))) - int (length (filter meta_failure (trace (sy q')))) + 0
       = int (length (filter is_warning (logger (sy q)))) - int (length (filter meta_failure (trace (sy q)))) + 0"
  using assms by (cases w) (auto simp: call_defs is_warning_def split: wstep_splits)

lemma wstep_chmods:
  assumes "wstep env base w q = (w', q')"
  shows "int (length (filter (chmods p) (trace (sy q')))) - int (length (filter (chtimes p) (trace (sy q'))))
           + - at_chtimes env base p w'
       = int (length (filter (chmods p) (trace (sy q)))) - int (length (filter (chtimes p) (trace (sy q))))
           + - at_chtimes env base p w"
  using assms by (cases w) (auto simp: call_defs split: wstep_splits)

lemma wstep_uploaded:
  assumes "wstep env base w q = (w', q')"
  shows "int (length (filter (reports_upload env base p) (logger (sy q'))))
           - int (length (filter (chtimes p) (trace (sy q')))) + 0
       = int (length (filter (reports_upload env base p) (logger (sy q))))
           - int (length (filter (chtimes p) (trace (sy q)))) + 0"
  using assms by (cases w) (auto simp: call_defs split: wstep_splits)

lemma run_pool_opens:
  assumes "0 < workers s"
  shows "length (filter (opens x) (new_trace s (sy (run_pool env base (init_pool s files)))))
       = length (filter (\<lambda>f. \<not> IsDir f \<and> Path f = x) files)"
proof -
  let ?A = "\<lambda>q. int (length (filter (opens x) (trace (sy q))))
                + int (length (filter (\<lambda>f. \<not> IsDir f \<and> Path f = x) (jobs q)))"
  have "?A (run_pool env base (init_pool s files)) = ?A (init_pool s files)"
    by (rule run_pool_ends_conserved[of env base ?A "at_open x"]) (simp_all add: wstep_opens)
  then have "int (length (filter (opens x) (new_trace s (sy (run_pool env base (init_pool s files))))))
           = int (length (filter (\<lambda>f. \<not> IsDir f \<and> Path f = x) files))"
    using run_pool_jobs_empty[OF assms, of env base files]
    by (simp add: new_trace_count) (simp add: init_pool_def)
  then show ?thesis by simp
qed

lemma run_pool_mkdirs:
  assumes "0 < workers s"
  shows "length (filter (announces p) (new_logs s (sy (run_pool env base (init_pool s files)))))
       = length (filter (\<lambda>f. IsDir f \<and> fp_Join env base (RelPath f) = p) files)"
proof -
  let ?A = "\<lambda>q. int (length (filter (announces p) (logger (sy q))))
                + int (length (filter (\<lambda>f. IsDir f \<and> fp_Join env base (RelPath f) = p) (jobs q)))"
  have "?A (run_pool env base (init_pool s files)) = ?A (init_pool s files)"
    by (rule run_pool_ends_conserved[of env base ?A "at_mkdir env base p"]) (simp_all add: wstep_mkdirs)
  then have "int (length (filter (announces p) (new_logs s (sy (run_pool env base (init_pool s files))))))
           = int (length (filter (\<lambda>f. IsDir f \<and> fp_Join env base (RelPath f) = p) files))"
    using run_pool_jobs_empty[OF assms, of env base files]
    by (simp add: new_logs_count) (simp add: init_pool_def)
  then show ?thesis by simp
qed

lemma run_pool_warnings:
  "length (filter is_warning (new_logs s (sy (run_pool env base (init_pool s files)))))
   = length (filter meta_failure (new_trace s (sy (run_pool env base (init_pool s files)))))"
proof -
  let ?A = "\<lambda>q. int (length (filter is_warning (logger (sy q)))) - int (length (filter meta_failure (trace (sy q))))"
  have "?A (run_pool env base (init_pool s files)) = ?A (init_pool s files)"
    by (rule run_pool_ends_conserved[of env base ?A "\<lambda>w. 0"]) (use wstep_warnings in simp_all)
  then have "int (length (filter is_warning (new_logs s (sy (run_pool env base (init_pool s files))))))
      = int (length (filter meta_failure (new_trace s (sy (run_pool env base (init_pool s files))))))"
    by (simp add: new_logs_count new_trace_count) (simp add: init_pool_def)
  then show ?thesis by simp
qed

lemma run_pool_chmods:
  "length (filter (chmods p) (new_trace s (sy (run_pool env base (init_pool s files)))))
   = length (filter (chtimes p) (new_trace s (sy (run_pool env base (init_pool s files)))))"
proof -
  let ?A = "\<lambda>q. int (length (filter (chmods p) (trace (sy q)))) - int (length (filter (chtimes p) (trace (sy q))))"
  have "?A (run_pool env base (init_pool s files)) = ?A (init_pool s files)"
    by (rule run_pool_ends_conserved[of env base ?A "\<lambda>w. - at_chtimes env base p w"])
       (use wstep_chmods in simp_all)
  then have "int (length (filter (chmods p) (new_trace s (sy (run_pool env base (init_pool s files))))))
      = int (length (filter (chtimes p) (new_trace s (sy (run_pool env base (init_pool s files))))))"
    by (simp add: new_trace_count) (simp add: init_pool_def)
  then show ?thesis by simp
qed

lemma run_pool_uploaded:
  "length (filter (reports_upload env base p) (new_logs s (sy (run_pool env base (init_pool s files)))))
   = length (filter (chtimes p) (new_trace s (sy (run_pool env base (init_pool s files)))))"
proof -
  let ?A = "\<lambda>q. int (length (filter (reports_upload env base p) (logger (sy q))))
                - int (length (filter (chtimes p) (trace (sy q))))"
  have "?A (run_pool env base (init_pool s files)) = ?A (init_pool s files)"
    by (rule run_pool_ends_conserved[of env base ?A "\<lambda>w. 0"]) (use wstep_uploaded in simp_all)
  then have "int (length (filter (reports_upload env base p) (new_logs s (sy (run_pool env base (init_pool s files))))))
      = int (length (filter (chtimes p) (new_trace s (sy (run_pool env base (init_pool s files))))))"
    by (simp add: new_logs_count new_trace_count) (simp add: init_pool_def)
  then show ?thesis by simp
qed

section \<open>What the workers call\<close>

lemma tick_cases:
  fixes q :: "'r pool"
  assumes "i < length (ws q)"
  obtains w' q' where "wstep env base (ws q ! i) q = (w', q')"
    and "tick env base q i = q'\<lparr>ws := (ws q)[i := w']\<rparr>"
proof -
  obtain w' q' where st: "wstep env base (ws q ! i) q = (w', q')" by force
  with tick_eq[OF assms, of env base] that show ?thesis by simp
qed

lemma file_paths_mem:
  "f \<in> set files \<Longrightarrow> \<not> IsDir f \<Longrightarrow> fp_Join env base (RelPath f) \<in> set (file_paths env base files)"
  by (auto simp: file_paths_def)

lemma dir_paths_mem:
  "f \<in> set files \<Longrightarrow> IsDir f \<Longrightarrow> fp_Join env base (RelPath f) \<in> set (dir_paths env base files)"
  "f \<in> set files \<Longrightarrow> \<not> IsDir f \<Longrightarrow>
     fp_Dir env (fp_Join env base (RelPath f)) \<in> set (dir_paths env base files)"
  by (auto simp: dir_paths_def)

lemma after_read_entry [simp]:
  "wentry_ok files (after_read f e rest) = (f \<in> set files \<and> \<not> IsDir f)"
  by (cases e) auto

lemma wstep_pool_event:
  assumes "wstep env base w q = (w', q')" "wentry_ok files w" "set (jobs q) \<subseteq> set files"
  shows "wentry_ok files w' \<and> set (jobs q') \<subseteq> set files
       \<and> (\<exists>evs. trace (sy q') = trace (sy q) @ evs \<and> (\<forall>ev \<in> set evs. pool_event env base files ev))"
  using assms
  by (cases w)
     (auto simp: call_defs file_paths_mem dir_paths_mem split: wstep_splits)

lemma tick_pool_inv:
  fixes q :: "'r pool"
  assumes inv: "pool_inv env base files t0 q" and i: "i < length (ws q)"
  shows "pool_inv env base files t0 (tick env base q i)"
proof -
  from i obtain w' q' where st: "wstep env base (ws q ! i) q = (w', q')"
    and t: "tick env base q i = q'\<lparr>ws := (ws q)[i := w']\<rparr>" by (rule tick_cases)
  from inv obtain evs where ev: "trace (sy q) = t0 @ evs" "\<forall>ev \<in> set evs. pool_event env base files ev"
    and jb: "set (jobs q) \<subseteq> set files" and wk: "\<forall>w \<in> set (ws q). wentry_ok files w"
    by (auto simp: pool_inv_def)
  have "wentry_ok files (ws q ! i)" using wk i by simp
  from wstep_pool_event[OF st this jb] obtain evs' where
    s: "wentry_ok files w'" "set (jobs q') \<subseteq> set files" "trace (sy q') = trace (sy q) @ evs'"
       "\<forall>ev \<in> set evs'. pool_event env base files ev" by blast
  have "\<forall>w \<in> set ((ws q)[i := w']). wentry_ok files w"
    using wk s(1) set_update_subset_insert[of "ws q" i w'] by auto
  moreover have "trace (sy q') = t0 @ (evs @ evs')" using ev(1) s(3) by simp
  moreover have "\<forall>ev \<in> set (evs @ evs'). pool_event env base files ev" using ev(2) s(4) by auto
  ultimately show ?thesis unfolding pool_inv_def t using s(2) by (simp del: append_assoc)
qed

lemma run_pool_events:
  "\<forall>ev \<in> set (new_trace s (sy (run_pool env base (init_pool s files)))). pool_event env base files ev"
proof -
  have "pool_inv env base files (trace s) (run_pool env base (init_pool s files))"
  proof (rule run_pool_induct[of "pool_inv env base files (trace s)"])
    show "pool_inv env base files (trace s) (init_pool s files)"
      by (simp add: pool_inv_def init_pool_def)
  next
    fix q :: "'a pool" and i
    assume "pool_inv env base files (trace s) q" "i < length (ws q)"
    then show "pool_inv env base files (trace s) (tick env base q i)" by (rule tick_pool_inv)
  qed
  then show ?thesis by (auto simp: pool_inv_def new_trace_def)
qed

lemma upt_split: "a \<le> b \<Longrightarrow> b \<le> c \<Longrightarrow> [a..<c] = [a..<b] @ [b..<c]"
  by (metis le_Suc_ex upt_add_eq_append)

section \<open>One outcome for every entry, step by step\<close>

lemma err_kinds [simp]:
  "is_upload_err (upload_err f m)" "\<not> is_mkdir_err (upload_err f m)"
  "is_mkdir_err (mkdir_err p x)" "\<not> is_upload_err (mkdir_err p x)"
  by (simp_all add: is_upload_err_def is_mkdir_err_def upload_err_def mkdir_err_def)

lemma after_read_copying [simp]:
  "copying P (after_read f e rest) + upload_failing (after_read f e rest)
     = (if is_rerr e then 1 else if P f then 1 else 0)"
  "copying P (after_read f e rest) = (if \<not> is_rerr e \<and> P f then 1 else 0)"
  "upload_failing (after_read f e rest) = (if is_rerr e then 1 else 0)"
  "mkdir_failing (after_read f e rest) = 0" "other_error (after_read f e rest) = 0"
  "at_dir (after_read f e rest) = 0" "at_parent (after_read f e rest) = 0"
  "at_create (after_read f e rest) = 0" "holds_reading t (after_read f e rest) = 0"
  "between_meta (after_read f e rest) = 0"
  by (cases e; simp)+

lemma wstep_readings:
  assumes "wstep env base w q = (w', q')"
  shows "int (length (filter (uses_atime t) (trace (sy q'))))
           - int (length (filter (\<lambda>k. time_Now env k = t) [0..<clock_reads (sy q')]))
           + holds_reading t w'
       = int (length (filter (uses_atime t) (trace (sy q))))
           - int (length (filter (\<lambda>k. time_Now env k = t) [0..<clock_reads (sy q)]))
           + holds_reading t w"
  using assms by (cases w) (auto simp: call_defs split: wstep_splits)

lemma wstep_clock:
  assumes "wstep env base w q = (w', q')"
  shows "clock_reads (sy q) \<le> clock_reads (sy q')"
  using assms by (cases w) (auto simp: call_defs split: wstep_splits)

lemma wstep_file_outcome:
  assumes "wstep env base w q = (w', q')"
  shows "int (length (filter is_chmod (trace (sy q')))) + int (length (filter is_upload_err (errors q')))
           + int (length (filter (\<lambda>f. \<not> IsDir f) (jobs q')))
           + (copying (\<lambda>f. True) w' + upload_failing w')
       = int (length (filter is_chmod (trace (sy q)))) + int (length (filter is_upload_err (errors q)))
           + int (length (filter (\<lambda>f. \<not> IsDir f) (jobs q)))
           + (copying (\<lambda>f. True) w + upload_failing w)"
  using assms by (cases w) (auto simp: call_defs split: wstep_splits)

lemma after_read_sound [simp]:
  "sound P (after_read f e rest) = (if P f \<and> \<not> is_rerr e then 1 else 0)"
  "before_create P (after_read f e rest) = 0"
  by (cases e; simp)+

lemma wstep_entry_create:
  assumes "wstep env base w q = (w', q')"
  shows "int (length (filter (is_create_of (fp_Join env base (RelPath f))) (trace (sy q))))
           + int (length (filter (early_fails_of env base f) (trace (sy q))))
           + int (length (filter (same_paths env base f) (jobs q)))
           + before_create (same_paths env base f) w
       \<le> int (length (filter (is_create_of (fp_Join env base (RelPath f))) (trace (sy q'))))
           + int (length (filter (early_fails_of env base f) (trace (sy q'))))
           + int (length (filter (same_paths env base f) (jobs q')))
           + before_create (same_paths env base f) w'"
  using assms by (cases w) (auto simp: call_defs same_paths_def split: wstep_splits)

lemma wstep_entry_meta:
  assumes "wstep env base w q = (w', q')"
  shows "int (length (filter (chmods (fp_Join env base (RelPath f))) (trace (sy q))))
           + int (length (filter (fails_of env base f) (trace (sy q))))
           + int (length (filter (same_paths env base f) (jobs q)))
           + sound (same_paths env base f) w
       \<le> int (length (filter (chmods (fp_Join env base (RelPath f))) (trace (sy q'))))
           + int (length (filter (fails_of env base f) (trace (sy q'))))
           + int (length (filter (same_paths env base f) (jobs q')))
           + sound (same_paths env base f) w'"
  using assms by (cases w) (auto simp: call_defs same_paths_def split: wstep_splits)

lemma wstep_meta_total:
  assumes "wstep env base w q = (w', q')"
  shows "int (length (filter is_chmod (trace (sy q')))) - int (length (filter is_chtimes (trace (sy q'))))
           + - between_meta w'
       = int (length (filter is_chmod (trace (sy q)))) - int (length (filter is_chtimes (trace (sy q))))
           + - between_meta w"
  using assms by (cases w) (auto simp: call_defs split: wstep_splits)

lemma wstep_chmods_lo:
  assumes "wstep env base w q = (w', q')"
  shows "int (length (filter (chmods p) (trace (sy q)))) + int (length (filter is_upload_err (errors q)))
           + int (length (filter (\<lambda>f. \<not> IsDir f \<and> fp_Join env base (RelPath f) = p) (jobs q)))
           + (copying (\<lambda>f. fp_Join env base (RelPath f) = p) w + upload_failing w)
       \<le> int (length (filter (chmods p) (trace (sy q')))) + int (length (filter is_upload_err (errors q')))
           + int (length (filter (\<lambda>f. \<not> IsDir f \<and> fp_Join env base (RelPath f) = p) (jobs q')))
           + (copying (\<lambda>f. fp_Join env base (RelPath f) = p) w' + upload_failing w')"
  using assms by (cases w) (auto simp: call_defs split: wstep_splits)

lemma wstep_chmods_hi:
  assumes "wstep env base w q = (w', q')"
  shows "- int (length (filter (chmods p) (trace (sy q))))
           - int (length (filter (\<lambda>f. \<not> IsDir f \<and> fp_Join env base (RelPath f) = p) (jobs q)))
           + - copying (\<lambda>f. fp_Join env base (RelPath f) = p) w
       \<le> - int (length (filter (chmods p) (trace (sy q'))))
           - int (length (filter (\<lambda>f. \<not> IsDir f \<and> fp_Join env base (RelPath f) = p) (jobs q')))
           + - copying (\<lambda>f. fp_Join env base (RelPath f) = p) w'"
  using assms by (cases w) (auto simp: call_defs split: wstep_splits)

lemma wstep_dir_mkdirs:
  assumes "wstep env base w q = (w', q')"
  shows "int (length (filter (is_mkdir_of p) (trace (sy q))))
           + int (length (filter (\<lambda>f. IsDir f \<and> fp_Join env base (RelPath f) = p) (jobs q)))
           + at_mkdir env base p w
       \<le> int (length (filter (is_mkdir_of p) (trace (sy q'))))
           + int (length (filter (\<lambda>f. IsDir f \<and> fp_Join env base (RelPath f) = p) (jobs q')))
           + at_mkdir env base p w'"
  using assms by (cases w) (auto simp: call_defs split: wstep_splits)

lemma wstep_mkdir_total:
  assumes "wstep env base w q = (w', q')"
  shows "int (length (filter is_mkdir (trace (sy q')))) - int (length (filter ok_open (trace (sy q'))))
           + int (length (filter IsDir (jobs q'))) + (at_dir w' + at_parent w')
       = int (length (filter is_mkdir (trace (sy q)))) - int (length (filter ok_open (trace (sy q))))
           + int (length (filter IsDir (jobs q))) + (at_dir w + at_parent w)"
  using assms by (cases w) (auto simp: call_defs split: wstep_splits)

lemma wstep_creates:
  assumes "wstep env base w q = (w', q')"
  shows "int (length (filter ok_mkdir (trace (sy q')))) + int (length (filter is_mkdir_err (errors q')))
           - int (length (filter is_create (trace (sy q'))))
           + int (length (filter IsDir (jobs q'))) + (at_dir w' + mkdir_failing w' - at_create w')
       = int (length (filter ok_mkdir (trace (sy q)))) + int (length (filter is_mkdir_err (errors q)))
           - int (length (filter is_create (trace (sy q))))
           + int (length (filter IsDir (jobs q))) + (at_dir w + mkdir_failing w - at_create w)"
  using assms by (cases w) (auto simp: call_defs split: wstep_splits)

lemma err_kinds_excl: "is_mkdir_err m \<Longrightarrow> \<not> is_upload_err m"
proof
  assume a: "is_mkdir_err m" and b: "is_upload_err m"
  from a have "take 22 (take 34 m) = take 22 ''failed to create remote directory ''"
    by (simp add: is_mkdir_err_def)
  then have "take 22 m = ''failed to create remot''" by simp
  moreover from b have "take 22 m = ''failed to upload file ''" by (simp add: is_upload_err_def)
  ultimately show False by simp
qed

lemma wstep_error_kinds:
  assumes "wstep env base w q = (w', q')"
  shows "int (length (errors q')) - int (length (filter is_mkdir_err (errors q')))
           - int (length (filter is_upload_err (errors q'))) + other_error w'
       = int (length (errors q)) - int (length (filter is_mkdir_err (errors q)))
           - int (length (filter is_upload_err (errors q))) + other_error w"
  using assms err_kinds_excl by (cases w) (auto simp: call_defs split: wstep_splits)

lemma wstep_errors_indep:
  "wstep env base w (q\<lparr>errors := es @ errors q\<rparr>)
   = (fst (wstep env base w q),
      (snd (wstep env base w q))\<lparr>errors := es @ errors (snd (wstep env base w q))\<rparr>)"
  by (cases w) (auto simp: call_defs split: wstep_splits)

section \<open>One outcome for every entry, for the run\<close>

lemma tick_clock:
  fixes q :: "'r pool"
  shows "clock_reads (sy q) \<le> clock_reads (sy (tick env base q i))"
proof (cases "i < length (ws q)")
  case True
  then obtain w' q' where st: "wstep env base (ws q ! i) q = (w', q')"
    and t: "tick env base q i = q'\<lparr>ws := (ws q)[i := w']\<rparr>" by (rule tick_cases)
  from wstep_clock[OF st] show ?thesis by (simp add: t)
next
  case False
  then show ?thesis by (simp add: tick_out_of_range)
qed

lemma run_pool_clock:
  "clock_reads s \<le> clock_reads (sy (run_pool env base (init_pool s files)))"
proof (rule run_pool_induct[of "\<lambda>q. clock_reads s \<le> clock_reads (sy q)"])
  show "clock_reads s \<le> clock_reads (sy (init_pool s files))" by (simp add: init_pool_def)
next
  fix q :: "'a pool" and i
  assume "clock_reads s \<le> clock_reads (sy q)"
  with tick_clock[of q env base i] show "clock_reads s \<le> clock_reads (sy (tick env base q i))"
    by simp
qed

lemma run_pool_readings:
  "length (filter (uses_atime t) (new_trace s (sy (run_pool env base (init_pool s files)))))
   = length (filter (\<lambda>k. time_Now env k = t)
       [clock_reads s..<clock_reads (sy (run_pool env base (init_pool s files)))])"
proof -
  let ?c = "\<lambda>q. clock_reads (sy q)"
  let ?A = "\<lambda>q. int (length (filter (uses_atime t) (trace (sy q))))
                - int (length (filter (\<lambda>k. time_Now env k = t) [0..<?c q]))"
  let ?q = "run_pool env base (init_pool s files)"
  have "?A ?q = ?A (init_pool s files)"
    by (rule run_pool_ends_conserved[of env base ?A "holds_reading t"]) (simp_all add: wstep_readings)
  moreover have "[0..<?c ?q] = [0..<clock_reads s] @ [clock_reads s..<?c ?q]"
    by (rule upt_split) (simp_all add: run_pool_clock)
  ultimately have "int (length (filter (uses_atime t) (new_trace s (sy ?q))))
      = int (length (filter (\<lambda>k. time_Now env k = t) [clock_reads s..<?c ?q]))"
    by (simp add: new_trace_count) (simp add: init_pool_def)
  then show ?thesis by simp
qed

lemma run_pool_file_outcome:
  assumes "0 < workers s"
  shows "length (filter is_chmod (new_trace s (sy (run_pool env base (init_pool s files)))))
         + length (filter is_upload_err (errors (run_pool env base (init_pool s files))))
       = length (filter (\<lambda>f. \<not> IsDir f) files)"
proof -
  let ?A = "\<lambda>q. int (length (filter is_chmod (trace (sy q)))) + int (length (filter is_upload_err (errors q)))
                + int (length (filter (\<lambda>f. \<not> IsDir f) (jobs q)))"
  have "?A (run_pool env base (init_pool s files)) = ?A (init_pool s files)"
    by (rule run_pool_ends_conserved[of env base ?A "\<lambda>w. copying (\<lambda>f. True) w + upload_failing w"])
       (simp_all add: wstep_file_outcome)
  then have "int (length (filter is_chmod (new_trace s (sy (run_pool env base (init_pool s files))))))
         + int (length (filter is_upload_err (errors (run_pool env base (init_pool s files)))))
       = int (length (filter (\<lambda>f. \<not> IsDir f) files))"
    using run_pool_jobs_empty[OF assms, of env base files]
    by (simp add: new_trace_count) (simp add: init_pool_def)
  then show ?thesis by linarith
qed

lemma run_pool_entry_meta:
  assumes "0 < workers s"
  shows "length (filter (same_paths env base f) files)
       \<le> length (filter (chmods (fp_Join env base (RelPath f)))
                    (new_trace s (sy (run_pool env base (init_pool s files)))))
         + length (filter (fails_of env base f) (new_trace s (sy (run_pool env base (init_pool s files)))))"
proof -
  let ?A = "\<lambda>q. int (length (filter (chmods (fp_Join env base (RelPath f))) (trace (sy q))))
           + int (length (filter (fails_of env base f) (trace (sy q))))
           + int (length (filter (same_paths env base f) (jobs q)))"
  have "?A (init_pool s files) \<le> ?A (run_pool env base (init_pool s files))"
    by (rule run_pool_ends_monotone[of env base ?A "sound (same_paths env base f)"])
       (simp_all add: wstep_entry_meta)
  then have "int (length (filter (same_paths env base f) files))
       \<le> int (length (filter (chmods (fp_Join env base (RelPath f)))
                    (new_trace s (sy (run_pool env base (init_pool s files))))))
         + int (length (filter (fails_of env base f) (new_trace s (sy (run_pool env base (init_pool s files))))))"
    using run_pool_jobs_empty[OF assms, of env base files]
    by (simp add: new_trace_count) (simp add: init_pool_def)
  then show ?thesis by linarith
qed

lemma run_pool_entry_create:
  assumes "0 < workers s"
  shows "length (filter (same_paths env base f) files)
       \<le> length (filter (is_create_of (fp_Join env base (RelPath f)))
                    (new_trace s (sy (run_pool env base (init_pool s files)))))
         + length (filter (early_fails_of env base f)
                    (new_trace s (sy (run_pool env base (init_pool s files)))))"
proof -
  let ?A = "\<lambda>q. int (length (filter (is_create_of (fp_Join env base (RelPath f))) (trace (sy q))))
           + int (length (filter (early_fails_of env base f) (trace (sy q))))
           + int (length (filter (same_paths env base f) (jobs q)))"
  have "?A (init_pool s files) \<le> ?A (run_pool env base (init_pool s files))"
    by (rule run_pool_ends_monotone[of env base ?A "before_create (same_paths env base f)"])
       (simp_all add: wstep_entry_create)
  then have "int (length (filter (same_paths env base f) files))
       \<le> int (length (filter (is_create_of (fp_Join env base (RelPath f)))
                    (new_trace s (sy (run_pool env base (init_pool s files))))))
         + int (length (filter (early_fails_of env base f)
                    (new_trace s (sy (run_pool env base (init_pool s files))))))"
    using run_pool_jobs_empty[OF assms, of env base files]
    by (simp add: new_trace_count) (simp add: init_pool_def)
  then show ?thesis by linarith
qed

lemma dir_entry_self:
  "f \<in> set files \<Longrightarrow> IsDir f \<Longrightarrow>
     1 \<le> length (filter (\<lambda>g. IsDir g \<and> fp_Join env base (RelPath g) = fp_Join env base (RelPath f)) files)"
  by (induction files) auto

lemma file_entry_self:
  "f \<in> set files \<Longrightarrow> \<not> IsDir f \<Longrightarrow>
     1 \<le> length (filter (\<lambda>g. \<not> IsDir g \<and> Path g = Path f) files)"
  by (induction files) auto

lemma same_paths_self:
  "f \<in> set files \<Longrightarrow> \<not> IsDir f \<Longrightarrow> 1 \<le> length (filter (same_paths env base f) files)"
  by (induction files) (auto simp: same_paths_def)

lemma run_pool_meta_total:
  "length (filter is_chtimes (new_trace s (sy (run_pool env base (init_pool s files)))))
   = length (filter is_chmod (new_trace s (sy (run_pool env base (init_pool s files)))))"
proof -
  let ?A = "\<lambda>q. int (length (filter is_chmod (trace (sy q)))) - int (length (filter is_chtimes (trace (sy q))))"
  have "?A (run_pool env base (init_pool s files)) = ?A (init_pool s files)"
    by (rule run_pool_ends_conserved[of env base ?A "\<lambda>w. - between_meta w"])
       (use wstep_meta_total in simp_all)
  then have "int (length (filter is_chtimes (new_trace s (sy (run_pool env base (init_pool s files))))))
      = int (length (filter is_chmod (new_trace s (sy (run_pool env base (init_pool s files))))))"
    by (simp add: new_trace_count) (simp add: init_pool_def)
  then show ?thesis by simp
qed

lemma run_pool_chmods_lo:
  assumes "0 < workers s"
  shows "length (filter (\<lambda>f. \<not> IsDir f \<and> fp_Join env base (RelPath f) = p) files)
       \<le> length (filter (chmods p) (new_trace s (sy (run_pool env base (init_pool s files)))))
         + length (filter is_upload_err (errors (run_pool env base (init_pool s files))))"
proof -
  let ?A = "\<lambda>q. int (length (filter (chmods p) (trace (sy q)))) + int (length (filter is_upload_err (errors q)))
           + int (length (filter (\<lambda>f. \<not> IsDir f \<and> fp_Join env base (RelPath f) = p) (jobs q)))"
  have "?A (init_pool s files) \<le> ?A (run_pool env base (init_pool s files))"
    by (rule run_pool_ends_monotone[of env base ?A
          "\<lambda>w. copying (\<lambda>f. fp_Join env base (RelPath f) = p) w + upload_failing w"])
       (simp_all add: wstep_chmods_lo)
  then have "int (length (filter (\<lambda>f. \<not> IsDir f \<and> fp_Join env base (RelPath f) = p) files))
       \<le> int (length (filter (chmods p) (new_trace s (sy (run_pool env base (init_pool s files))))))
         + int (length (filter is_upload_err (errors (run_pool env base (init_pool s files)))))"
    using run_pool_jobs_empty[OF assms, of env base files]
    by (simp add: new_trace_count) (simp add: init_pool_def)
  then show ?thesis by linarith
qed

lemma run_pool_chmods_hi:
  "length (filter (chmods p) (new_trace s (sy (run_pool env base (init_pool s files)))))
   \<le> length (filter (\<lambda>f. \<not> IsDir f \<and> fp_Join env base (RelPath f) = p) files)"
proof -
  let ?A = "\<lambda>q. - int (length (filter (chmods p) (trace (sy q))))
           - int (length (filter (\<lambda>f. \<not> IsDir f \<and> fp_Join env base (RelPath f) = p) (jobs q)))"
  have "?A (init_pool s files) \<le> ?A (run_pool env base (init_pool s files))"
    by (rule run_pool_ends_monotone[of env base ?A
          "\<lambda>w. - copying (\<lambda>f. fp_Join env base (RelPath f) = p) w"])
       (use wstep_chmods_hi in simp_all)
  then have "int (length (filter (chmods p) (new_trace s (sy (run_pool env base (init_pool s files))))))
     \<le> int (length (filter (\<lambda>f. \<not> IsDir f \<and> fp_Join env base (RelPath f) = p) files))"
    by (simp add: new_trace_count) (simp add: init_pool_def)
  then show ?thesis by linarith
qed

lemma run_pool_dir_mkdirs:
  assumes "0 < workers s"
  shows "length (filter (\<lambda>f. IsDir f \<and> fp_Join env base (RelPath f) = p) files)
       \<le> length (filter (is_mkdir_of p) (new_trace s (sy (run_pool env base (init_pool s files)))))"
proof -
  let ?A = "\<lambda>q. int (length (filter (is_mkdir_of p) (trace (sy q))))
           + int (length (filter (\<lambda>f. IsDir f \<and> fp_Join env base (RelPath f) = p) (jobs q)))"
  have "?A (init_pool s files) \<le> ?A (run_pool env base (init_pool s files))"
    by (rule run_pool_ends_monotone[of env base ?A "at_mkdir env base p"])
       (simp_all add: wstep_dir_mkdirs)
  then have "int (length (filter (\<lambda>f. IsDir f \<and> fp_Join env base (RelPath f) = p) files))
       \<le> int (length (filter (is_mkdir_of p) (new_trace s (sy (run_pool env base (init_pool s files))))))"
    using run_pool_jobs_empty[OF assms, of env base files]
    by (simp add: new_trace_count) (simp add: init_pool_def)
  then show ?thesis by linarith
qed

lemma run_pool_mkdir_total:
  assumes "0 < workers s"
  shows "length (filter is_mkdir (new_trace s (sy (run_pool env base (init_pool s files)))))
       = length (filter IsDir files)
         + length (filter ok_open (new_trace s (sy (run_pool env base (init_pool s files)))))"
proof -
  let ?A = "\<lambda>q. int (length (filter is_mkdir (trace (sy q)))) - int (length (filter ok_open (trace (sy q))))
           + int (length (filter IsDir (jobs q)))"
  have "?A (run_pool env base (init_pool s files)) = ?A (init_pool s files)"
    by (rule run_pool_ends_conserved[of env base ?A "\<lambda>w. at_dir w + at_parent w"])
       (simp_all add: wstep_mkdir_total)
  then have "int (length (filter is_mkdir (new_trace s (sy (run_pool env base (init_pool s files))))))
       = int (length (filter IsDir files))
         + int (length (filter ok_open (new_trace s (sy (run_pool env base (init_pool s files))))))"
    using run_pool_jobs_empty[OF assms, of env base files]
    by (simp add: new_trace_count) (simp add: init_pool_def)
  then show ?thesis by linarith
qed

lemma run_pool_creates:
  assumes "0 < workers s"
  shows "length (filter is_create (new_trace s (sy (run_pool env base (init_pool s files)))))
         + length (filter IsDir files)
       = length (filter ok_mkdir (new_trace s (sy (run_pool env base (init_pool s files)))))
         + length (filter is_mkdir_err (errors (run_pool env base (init_pool s files))))"
proof -
  let ?A = "\<lambda>q. int (length (filter ok_mkdir (trace (sy q)))) + int (length (filter is_mkdir_err (errors q)))
           - int (length (filter is_create (trace (sy q))))
           + int (length (filter IsDir (jobs q)))"
  have "?A (run_pool env base (init_pool s files)) = ?A (init_pool s files)"
    by (rule run_pool_ends_conserved[of env base ?A "\<lambda>w. at_dir w + mkdir_failing w - at_create w"])
       (simp_all add: wstep_creates)
  then have "int (length (filter is_create (new_trace s (sy (run_pool env base (init_pool s files))))))
         + int (length (filter IsDir files))
       = int (length (filter ok_mkdir (new_trace s (sy (run_pool env base (init_pool s files))))))
         + int (length (filter is_mkdir_err (errors (run_pool env base (init_pool s files)))))"
    using run_pool_jobs_empty[OF assms, of env base files]
    by (simp add: new_trace_count) (simp add: init_pool_def)
  then show ?thesis by linarith
qed

lemma run_pool_error_kinds:
  "length (errors (run_pool env base (init_pool s files)))
   = length (filter is_mkdir_err (errors (run_pool env base (init_pool s files))))
     + length (filter is_upload_err (errors (run_pool env base (init_pool s files))))"
proof -
  let ?A = "\<lambda>q. int (length (errors q)) - int (length (filter is_mkdir_err (errors q)))
           - int (length (filter is_upload_err (errors q)))"
  have "?A (run_pool env base (init_pool s files)) = ?A (init_pool s files)"
    by (rule run_pool_ends_conserved[of env base ?A other_error]) (simp_all add: wstep_error_kinds)
  then show ?thesis by (simp add: init_pool_def)
qed

section \<open>Chmod, then the clock, then Chtimes\<close>

lemma after_read_at_now [simp]:
  "at_now (after_read f e rest) = 0" "at_call_chtimes (after_read f e rest) = 0"
  by (cases e; simp)+

lemma at_now_nonneg [simp]: "0 \<le> at_now w" "0 \<le> at_call_chtimes w"
  by (cases w; simp)+

lemma sum_list_neg:
  fixes g :: "'a \<Rightarrow> int"
  shows "(\<Sum>x\<leftarrow>xs. - g x) = - (\<Sum>x\<leftarrow>xs. g x)"
  by (induction xs) auto

lemma sum_list_nonneg_int:
  fixes g :: "'a \<Rightarrow> int"
  assumes "\<And>x. 0 \<le> g x"
  shows "0 \<le> (\<Sum>x\<leftarrow>xs. g x)"
  by (rule sum_list_nonneg) (use assms in auto)

lemma run_ticks_conserved:
  fixes A :: "'r pool \<Rightarrow> int" and g :: "wstate \<Rightarrow> int"
  assumes step: "\<And>w q w' q'. wstep env base w q = (w', q') \<Longrightarrow> A q' + g w' = A q + g w"
      and upd: "\<And>q x. A (q\<lparr>ws := x\<rparr>) = A q"
  shows "A (run_ticks env base is p) + (\<Sum>w\<leftarrow>ws (run_ticks env base is p). g w)
       = A p + (\<Sum>w\<leftarrow>ws p. g w)"
proof (rule run_ticks_induct[where P = "\<lambda>q. A q + (\<Sum>w\<leftarrow>ws q. g w) = A p + (\<Sum>w\<leftarrow>ws p. g w)"])
  show "A p + (\<Sum>w\<leftarrow>ws p. g w) = A p + (\<Sum>w\<leftarrow>ws p. g w)" by simp
next
  fix q i
  assume h: "A q + (\<Sum>w\<leftarrow>ws q. g w) = A p + (\<Sum>w\<leftarrow>ws p. g w)" and i: "i < length (ws q)"
  have "A (tick env base q i) + (\<Sum>w\<leftarrow>ws (tick env base q i). g w) = A q + (\<Sum>w\<leftarrow>ws q. g w)"
    by (rule tick_conserved[OF step upd i])
  with h show "A (tick env base q i) + (\<Sum>w\<leftarrow>ws (tick env base q i). g w)
             = A p + (\<Sum>w\<leftarrow>ws p. g w)" by simp
qed

lemma run_ticks_grow:
  fixes p :: "'r pool"
  shows "\<exists>evs. trace (sy (run_ticks env base is p)) = trace (sy p) @ evs"
proof (rule run_ticks_induct[of "\<lambda>q. \<exists>evs. trace (sy q) = trace (sy p) @ evs"])
  show "\<exists>evs. trace (sy p) = trace (sy p) @ evs" by simp
next
  fix q :: "'r pool" and i
  assume "\<exists>evs. trace (sy q) = trace (sy p) @ evs"
  then obtain evs where a: "trace (sy q) = trace (sy p) @ evs" by blast
  from tick_grow[of env base q i] obtain evs' where
    "trace (sy (tick env base q i)) = trace (sy q) @ evs'" by blast
  with a show "\<exists>evs. trace (sy (tick env base q i)) = trace (sy p) @ evs" by simp
qed

lemma wstep_clock_chmod:
  assumes "wstep env base w q = (w', q')"
  shows "int (length (filter is_chmod (trace (sy q')))) - int (clock_reads (sy q')) + - at_now w'
       = int (length (filter is_chmod (trace (sy q)))) - int (clock_reads (sy q)) + - at_now w"
  using assms by (cases w) (auto simp: call_defs split: wstep_splits)

lemma wstep_clock_chtimes:
  assumes "wstep env base w q = (w', q')"
  shows "int (clock_reads (sy q')) - int (length (filter is_chtimes (trace (sy q')))) + - at_call_chtimes w'
       = int (clock_reads (sy q)) - int (length (filter is_chtimes (trace (sy q)))) + - at_call_chtimes w"
  using assms by (cases w) (auto simp: call_defs split: wstep_splits)

text \<open>At every moment of a run, the \<open>Chtimes\<close> calls made are not more than the readings
  of the clock taken, and these not more than the \<open>Chmod\<close> calls made.\<close>

lemma run_ticks_clock_order:
  "clock_reads s + length (filter is_chtimes (new_trace s (sy (run_ticks env base is (init_pool s files)))))
     \<le> clock_reads (sy (run_ticks env base is (init_pool s files)))
   \<and> clock_reads (sy (run_ticks env base is (init_pool s files)))
     \<le> clock_reads s + length (filter is_chmod (new_trace s (sy (run_ticks env base is (init_pool s files)))))"
proof -
  let ?p = "init_pool s files"
  let ?q = "run_ticks env base is ?p"
  from run_ticks_grow[of env base "is" ?p] obtain evs where
    tr: "trace (sy ?q) = trace s @ evs" by (auto simp: init_pool_def)
  then have nt: "new_trace s (sy ?q) = evs" by (simp add: new_trace_def)
  let ?A1 = "\<lambda>q. int (length (filter is_chmod (trace (sy q)))) - int (clock_reads (sy q))"
  let ?A2 = "\<lambda>q. int (clock_reads (sy q)) - int (length (filter is_chtimes (trace (sy q))))"
  have 1: "?A1 ?q + (\<Sum>w\<leftarrow>ws ?q. - at_now w) = ?A1 ?p + (\<Sum>w\<leftarrow>ws ?p. - at_now w)"
    by (rule run_ticks_conserved[of env base ?A1 "\<lambda>w. - at_now w"]) (use wstep_clock_chmod in simp_all)
  have 2: "?A2 ?q + (\<Sum>w\<leftarrow>ws ?q. - at_call_chtimes w) = ?A2 ?p + (\<Sum>w\<leftarrow>ws ?p. - at_call_chtimes w)"
    by (rule run_ticks_conserved[of env base ?A2 "\<lambda>w. - at_call_chtimes w"])
       (use wstep_clock_chtimes in simp_all)
  have n1: "0 \<le> (\<Sum>w\<leftarrow>ws ?q. at_now w)"
    by (rule sum_list_nonneg_int) simp
  have n2: "0 \<le> (\<Sum>w\<leftarrow>ws ?q. at_call_chtimes w)"
    by (rule sum_list_nonneg_int) simp
  have i1: "(\<Sum>w\<leftarrow>ws ?p. - at_now w) = 0" "(\<Sum>w\<leftarrow>ws ?p. - at_call_chtimes w) = 0"
    by (simp_all add: init_pool_def sum_list_replicate)
  have m: "(\<Sum>w\<leftarrow>ws ?q. - at_now w) = - (\<Sum>w\<leftarrow>ws ?q. at_now w)"
          "(\<Sum>w\<leftarrow>ws ?q. - at_call_chtimes w) = - (\<Sum>w\<leftarrow>ws ?q. at_call_chtimes w)"
    by (simp_all add: sum_list_neg)
  have p0: "trace (sy ?p) = trace s" "clock_reads (sy ?p) = clock_reads s"
    by (simp_all add: init_pool_def)
  from 1 2 n1 n2 show ?thesis
    unfolding nt i1 m p0 tr by simp
qed

section \<open>The collection does not steer the workers\<close>

lemma tick_errors_indep:
  "tick env base (q\<lparr>errors := es @ errors q\<rparr>) i
   = (tick env base q i)\<lparr>errors := es @ errors (tick env base q i)\<rparr>"
proof (cases "i < length (ws q)")
  case True
  then show ?thesis
    by (simp add: tick_eq wstep_errors_indep wstep_ws)
next
  case False
  then show ?thesis by (simp add: tick_out_of_range)
qed

lemma run_ticks_errors_indep:
  "run_ticks env base is (q\<lparr>errors := es @ errors q\<rparr>)
   = (run_ticks env base is q)\<lparr>errors := es @ errors (run_ticks env base is q)\<rparr>"
proof (induction "is" arbitrary: q)
  case Nil
  show ?case by (simp add: run_ticks_def)
next
  case (Cons i "is")
  have "run_ticks env base (i # is) (q\<lparr>errors := es @ errors q\<rparr>)
      = run_ticks env base is ((tick env base q i)\<lparr>errors := es @ errors (tick env base q i)\<rparr>)"
    by (simp add: run_ticks_def tick_errors_indep)
  also have "\<dots> = (run_ticks env base is (tick env base q i))
                    \<lparr>errors := es @ errors (run_ticks env base is (tick env base q i))\<rparr>"
    by (rule Cons.IH)
  finally show ?case by (simp add: run_ticks_def)
qed

lemma drain_errors_indep:
  "drain env base n (q\<lparr>errors := es @ errors q\<rparr>)
   = (drain env base n q)\<lparr>errors := es @ errors (drain env base n q)\<rparr>"
proof (induction n arbitrary: q)
  case 0
  show ?case by simp
next
  case (Suc n)
  show ?case
  proof (cases "first_active (ws q)")
    case None
    then show ?thesis by simp
  next
    case (Some i)
    then show ?thesis using Suc.IH[of "tick env base q i"] by (simp add: tick_errors_indep)
  qed
qed

lemma pool_weight_errors [simp]: "pool_weight env (q\<lparr>errors := x\<rparr>) = pool_weight env q"
  by (simp add: pool_weight_def)

lemma run_pool_errors_indep:
  "run_pool env base (q\<lparr>errors := es @ errors q\<rparr>)
   = (run_pool env base q)\<lparr>errors := es @ errors (run_pool env base q)\<rparr>"
  by (simp add: run_pool_def Let_def run_ticks_errors_indep drain_errors_indep)


section \<open>The byte counter\<close>

lemma wrap64_id: "- (2 ^ 63) \<le> x \<Longrightarrow> x < 2 ^ 63 \<Longrightarrow> wrap64 x = x"
  by (simp add: wrap64_def)

lemma remaining_nonneg [simp]: "0 \<le> remaining env w"
  by (cases w) auto

lemma local_bytes_nonneg [simp]: "0 \<le> local_bytes env f"
  by (simp add: local_bytes_def)

lemma queued_bytes_nonneg [simp]: "0 \<le> queued_bytes env fs"
  by (induction fs) (auto simp: queued_bytes_def)

lemma queued_bytes_Cons [simp]:
  "queued_bytes env (f # fs) = local_bytes env f + queued_bytes env fs"
  "queued_bytes env [] = 0"
  by (simp_all add: queued_bytes_def)

lemma written_append [simp]: "written (xs @ ys) = written xs + written ys"
  by (induction xs rule: written.induct) auto

lemma after_read_remaining [simp]:
  "remaining env (after_read f e rest) = (if e = RNil then int (delivered rest) else 0)"
  "pending_count (after_read f e rest) = 0"
  by (cases e; simp)+

lemma wstep_bytes:
  assumes st: "wstep env base w q = (w', q')"
      and lo: "- (2 ^ 63) \<le> syncedSize (sy q)"
      and hi: "syncedSize (sy q) + remaining env w + queued_bytes env (jobs q) < 2 ^ 63"
  shows "syncedSize (sy q) \<le> syncedSize (sy q')
       \<and> syncedSize (sy q') + remaining env w' + queued_bytes env (jobs q')
           \<le> syncedSize (sy q) + remaining env w + queued_bytes env (jobs q)
       \<and> (\<exists>evs. trace (sy q') = trace (sy q) @ evs
             \<and> syncedSize (sy q') + pending_count w' = syncedSize (sy q) + pending_count w + written evs
             \<and> ((\<forall>ev \<in> set evs. \<not> transfer_failure ev) \<longrightarrow>
                  syncedSize (sy q') + remaining env w' + queued_bytes env (jobs q')
                  = syncedSize (sy q) + remaining env w + queued_bytes env (jobs q)))"
proof (cases w)
  case (WCount f n e rest)
  have q0: "0 \<le> queued_bytes env (jobs q)" by simp
  have "int n \<le> remaining env w" unfolding WCount by simp
  with hi q0 have "syncedSize (sy q) + int n < 2 ^ 63" by linarith
  then have "wrap64 (syncedSize (sy q) + int n) = syncedSize (sy q) + int n"
    using lo by (intro wrap64_id) auto
  then show ?thesis using st unfolding WCount by (auto simp: call_defs)
next
  case WRecv
  then show ?thesis using st
    by (auto simp: call_defs local_bytes_def split: wstep_splits)
next
  case (WOpen f)
  then show ?thesis using st
    by (auto simp: call_defs script_of_def split: wstep_splits)
qed (use st in \<open>auto simp: call_defs split: wstep_splits\<close>)

lemma elem_le_sum:
  fixes g :: "'a \<Rightarrow> int"
  assumes "\<And>x. 0 \<le> g x" "i < length xs"
  shows "g (xs ! i) \<le> (\<Sum>x\<leftarrow>xs. g x)"
  using assms(2)
proof (induction xs arbitrary: i)
  case Nil
  then show ?case by simp
next
  case (Cons x xs)
  have "0 \<le> (\<Sum>x\<leftarrow>xs. g x)" by (rule sum_list_nonneg) (use assms(1) in auto)
  with Cons assms(1)[of x] show ?case by (cases i) (auto simp: add_increasing)
qed

lemma tick_byte_inv:
  fixes q :: "'r pool"
  assumes inv: "byte_inv env lo hi t0 q" and lo: "- (2 ^ 63) \<le> lo" and hi: "hi < 2 ^ 63"
      and i: "i < length (ws q)"
  shows "byte_inv env lo hi t0 (tick env base q i)
       \<and> syncedSize (sy q) \<le> syncedSize (sy (tick env base q i))"
proof -
  from i obtain w' q' where st: "wstep env base (ws q ! i) q = (w', q')"
    and t: "tick env base q i = q'\<lparr>ws := (ws q)[i := w']\<rparr>" by (rule tick_cases)
  define w where "w = ws q ! i"
  define others where "others = (\<Sum>x\<leftarrow>ws q. remaining env x) - remaining env w"
  have oth: "0 \<le> others"
    using elem_le_sum[of "remaining env" i "ws q"] i by (simp add: others_def w_def)
  have out: "outstanding env q = remaining env w + others + queued_bytes env (jobs q)"
    by (simp add: outstanding_def others_def)
  have out': "outstanding env (tick env base q i) = remaining env w' + others + queued_bytes env (jobs q')"
    by (simp add: outstanding_def others_def t sum_list_map_update[OF i] w_def)
  have pc': "(\<Sum>x\<leftarrow>ws (tick env base q i). pending_count x)
           = (\<Sum>x\<leftarrow>ws q. pending_count x) - pending_count w + pending_count w'"
    by (simp add: t sum_list_map_update[OF i] w_def)
  from inv obtain evs where iv:
    "lo \<le> syncedSize (sy q)" "syncedSize (sy q) + outstanding env q \<le> hi"
    "trace (sy q) = t0 @ evs"
    "syncedSize (sy q) + (\<Sum>w\<leftarrow>ws q. pending_count w) = lo + written evs"
    "(\<forall>ev \<in> set evs. \<not> transfer_failure ev) \<longrightarrow> syncedSize (sy q) + outstanding env q = hi"
    by (auto simp: byte_inv_def)
  have a: "- (2 ^ 63) \<le> syncedSize (sy q)" using iv(1) lo by simp
  have b: "syncedSize (sy q) + remaining env w + queued_bytes env (jobs q) < 2 ^ 63"
    using iv(2) hi oth out by linarith
  from wstep_bytes[OF st[folded w_def] a b] obtain evs' where s:
    "syncedSize (sy q) \<le> syncedSize (sy q')"
    "syncedSize (sy q') + remaining env w' + queued_bytes env (jobs q')
       \<le> syncedSize (sy q) + remaining env w + queued_bytes env (jobs q)"
    "trace (sy q') = trace (sy q) @ evs'"
    "syncedSize (sy q') + pending_count w' = syncedSize (sy q) + pending_count w + written evs'"
    "(\<forall>ev \<in> set evs'. \<not> transfer_failure ev) \<longrightarrow>
       syncedSize (sy q') + remaining env w' + queued_bytes env (jobs q')
       = syncedSize (sy q) + remaining env w + queued_bytes env (jobs q)"
    by blast
  have sq: "sy (tick env base q i) = sy q'" by (simp add: t)
  have 1: "lo \<le> syncedSize (sy (tick env base q i))" using iv(1) s(1) by (simp add: sq)
  have 2: "syncedSize (sy (tick env base q i)) + outstanding env (tick env base q i) \<le> hi"
    using iv(2) s(2) out out' by (simp add: sq)
  have 3: "trace (sy (tick env base q i)) = t0 @ (evs @ evs')" using iv(3) s(3) by (simp add: sq)
  have 4: "syncedSize (sy (tick env base q i)) + (\<Sum>x\<leftarrow>ws (tick env base q i). pending_count x)
         = lo + written (evs @ evs')"
    using iv(4) s(4) pc' by (simp add: sq)
  have 5: "(\<forall>ev \<in> set (evs @ evs'). \<not> transfer_failure ev) \<longrightarrow>
           syncedSize (sy (tick env base q i)) + outstanding env (tick env base q i) = hi"
    using iv(5) s(5) out out' by (auto simp: sq)
  have "byte_inv env lo hi t0 (tick env base q i)"
    unfolding byte_inv_def using 1 2 3 4 5 by blast
  then show ?thesis using s(1) by (simp add: sq)
qed

lemma init_byte_inv:
  "byte_inv env (syncedSize s) (syncedSize s + queued_bytes env files) (trace s) (init_pool s files)"
  by (simp add: byte_inv_def init_pool_def outstanding_def sum_list_replicate)

lemma run_ticks_byte_inv:
  assumes "- (2 ^ 63) \<le> syncedSize s" "syncedSize s + queued_bytes env files < 2 ^ 63"
  shows "byte_inv env (syncedSize s) (syncedSize s + queued_bytes env files) (trace s)
           (run_ticks env base is (init_pool s files))"
proof (rule run_ticks_induct[of "byte_inv env (syncedSize s) (syncedSize s + queued_bytes env files) (trace s)"])
  show "byte_inv env (syncedSize s) (syncedSize s + queued_bytes env files) (trace s) (init_pool s files)"
    by (rule init_byte_inv)
next
  fix q :: "'a pool" and i
  assume "byte_inv env (syncedSize s) (syncedSize s + queued_bytes env files) (trace s) q"
         "i < length (ws q)"
  then show "byte_inv env (syncedSize s) (syncedSize s + queued_bytes env files) (trace s)
               (tick env base q i)"
    using tick_byte_inv[of env _ _ "trace s" q i base] assms by simp
qed

lemma run_pool_byte_inv:
  assumes "- (2 ^ 63) \<le> syncedSize s" "syncedSize s + queued_bytes env files < 2 ^ 63"
  shows "byte_inv env (syncedSize s) (syncedSize s + queued_bytes env files) (trace s)
           (run_pool env base (init_pool s files))"
proof (rule run_pool_induct[of "byte_inv env (syncedSize s) (syncedSize s + queued_bytes env files) (trace s)"])
  show "byte_inv env (syncedSize s) (syncedSize s + queued_bytes env files) (trace s) (init_pool s files)"
    by (rule init_byte_inv)
next
  fix q :: "'a pool" and i
  assume "byte_inv env (syncedSize s) (syncedSize s + queued_bytes env files) (trace s) q"
         "i < length (ws q)"
  then show "byte_inv env (syncedSize s) (syncedSize s + queued_bytes env files) (trace s)
               (tick env base q i)"
    using tick_byte_inv[of env _ _ "trace s" q i base] assms by simp
qed

lemma counter_step_mono:
  assumes "- (2 ^ 63) \<le> syncedSize s" "syncedSize s + queued_bytes env files < 2 ^ 63"
  shows "syncedSize (sy (run_ticks env base is (init_pool s files)))
       \<le> syncedSize (sy (tick env base (run_ticks env base is (init_pool s files)) i))"
proof (cases "i < length (ws (run_ticks env base is (init_pool s files)))")
  case True
  from tick_byte_inv[OF run_ticks_byte_inv[OF assms, of base "is"] _ _ True, of base] assms
  show ?thesis by simp
next
  case False
  then show ?thesis by (simp add: tick_out_of_range)
qed

lemma counter_final_written:
  assumes "- (2 ^ 63) \<le> syncedSize s" "syncedSize s + queued_bytes env files < 2 ^ 63"
  shows "syncedSize (sy (run_pool env base (init_pool s files)))
       = syncedSize s + written (new_trace s (sy (run_pool env base (init_pool s files))))"
proof -
  let ?q = "run_pool env base (init_pool s files)"
  from run_pool_byte_inv[OF assms, of base] obtain evs where
    "trace (sy ?q) = trace s @ evs"
    "syncedSize (sy ?q) + (\<Sum>w\<leftarrow>ws ?q. pending_count w) = syncedSize s + written evs"
    by (auto simp: byte_inv_def)
  moreover have "(\<Sum>w\<leftarrow>ws ?q. pending_count w) = 0"
    by (rule sum_exited[OF run_pool_done]) simp
  ultimately show ?thesis by (simp add: new_trace_def)
qed

lemma counter_final_sum:
  assumes "- (2 ^ 63) \<le> syncedSize s" "syncedSize s + queued_bytes env files < 2 ^ 63"
      and "0 < workers s" "errors (run_pool env base (init_pool s files)) = []"
  shows "syncedSize (sy (run_pool env base (init_pool s files)))
       = syncedSize s + queued_bytes env files"
proof -
  let ?q = "run_pool env base (init_pool s files)"
  from run_pool_byte_inv[OF assms(1,2), of base] obtain evs where e:
    "trace (sy ?q) = trace s @ evs"
    "(\<forall>ev \<in> set evs. \<not> transfer_failure ev) \<longrightarrow>
       syncedSize (sy ?q) + outstanding env ?q = syncedSize s + queued_bytes env files"
    by (auto simp: byte_inv_def)
  have "filter transfer_failure (new_trace s (sy ?q)) = []"
    using run_pool_errors_ge[of s env base files] assms(4) by simp
  then have "\<forall>ev \<in> set evs. \<not> transfer_failure ev"
    using e(1) by (auto simp: new_trace_def filter_empty_conv)
  moreover have "(\<Sum>w\<leftarrow>ws ?q. remaining env w) = 0"
    by (rule sum_exited[OF run_pool_done]) simp
  moreover have "jobs ?q = []" by (rule run_pool_jobs_empty[OF assms(3)])
  ultimately show ?thesis using e(2) by (simp add: outstanding_def)
qed

section \<open>The sequential parts\<close>

lemma walkFn_logs:
  "\<exists>ls. snd (walkFn env vs files s) = s\<lparr>logger := logger s @ ls\<rparr>"
proof (induction vs arbitrary: files s)
  case Nil
  show ?case by (rule exI[of _ "[]"]) simp
next
  case (Cons v vs)
  obtain path info err where v: "v = (path, info, err)" by (cases v) auto
  show ?case
  proof (cases err)
    case (Some e)
    show ?thesis by (rule exI[of _ "[]"]) (simp add: v Some)
  next
    case None
    show ?thesis
    proof (cases "fp_Rel env (localPath s) path")
      case (Inl e)
      show ?thesis by (rule exI[of _ "[]"]) (simp add: v None Inl)
    next
      case (Inr relPath)
      show ?thesis
      proof (cases "relPath = ''.''")
        case True
        then show ?thesis using Cons.IH[of files s] Inr by (simp add: v None)
      next
        case False
        define s' where "s' = (if info_IsDir info
                  then logf Debug ''Found directory: %s'' [S relPath] s
                  else logf Debug ''Found file: %s (%d bytes)'' [S relPath, D (info_Size info)] s)"
        define f where "f = files @ [\<lparr>Path = path, RelPath = relPath, Size = info_Size info,
                            ModTime = info_ModTime info, IsDir = info_IsDir info\<rparr>]"
        have "\<exists>l. s' = s\<lparr>logger := logger s @ [l]\<rparr>"
        proof (cases "info_IsDir info")
          case True
          show ?thesis
            by (rule exI[of _ "(Debug, ''Found directory: %s'', [S relPath])"])
               (simp add: logf_def s'_def True)
        next
          case False
          show ?thesis
            by (rule exI[of _ "(Debug, ''Found file: %s (%d bytes)'', [S relPath, D (info_Size info)])"])
               (simp add: logf_def s'_def False)
        qed
        then obtain l where l: "s' = s\<lparr>logger := logger s @ [l]\<rparr>" by blast
        from Cons.IH[of f s'] obtain ls where
          ih: "snd (walkFn env vs f s') = s'\<lparr>logger := logger s' @ ls\<rparr>" by blast
        have w: "walkFn env (v # vs) files s = walkFn env vs f s'"
          using False Inr by (simp add: v None s'_def f_def)
        have "snd (walkFn env vs f s') = s\<lparr>logger := logger s @ l # ls\<rparr>"
          unfolding ih by (simp add: l)
        then show ?thesis by (intro exI[of _ "l # ls"]) (simp add: w)
      qed
    qed
  qed
qed

lemma collectLocalFiles_logs:
  "\<exists>ls. snd (collectLocalFiles env s) = s\<lparr>logger := logger s @ ls\<rparr>"
proof -
  define s1 where "s1 = logf Info ''Collecting files from: %s'' [S (localPath s)] s"
  have "\<exists>l. s1 = s\<lparr>logger := logger s @ [l]\<rparr>"
    by (rule exI[of _ "(Info, ''Collecting files from: %s'', [S (localPath s)])"])
       (simp add: logf_def s1_def)
  then obtain l where l: "s1 = s\<lparr>logger := logger s @ [l]\<rparr>" by blast
  from walkFn_logs[of env "fp_Walk env (localPath s)" "[]" s1] obtain ls where
    w: "snd (walkFn env (fp_Walk env (localPath s)) [] s1) = s\<lparr>logger := logger s @ (l # ls)\<rparr>"
    unfolding l by auto
  obtain r s2 where rs: "walkFn env (fp_Walk env (localPath s)) [] s1 = (r, s2)" by force
  with w have s2: "s2 = s\<lparr>logger := logger s @ (l # ls)\<rparr>" by simp
  have c: "collectLocalFiles env s =
           (case r of Inl e \<Rightarrow> (Inl (''failed to walk local directory: '' @ e), s2)
            | Inr files \<Rightarrow> (Inr files, logf Info ''Found %d files/directories'' [D (int (length files))] s2))"
    using rs by (simp add: collectLocalFiles_def Let_def s1_def split: sum.splits)
  show ?thesis
  proof (cases r)
    case (Inl e)
    show ?thesis by (rule exI[of _ "l # ls"]) (simp add: c Inl s2)
  next
    case (Inr files)
    show ?thesis
      by (rule exI[of _ "l # ls @ [(Info, ''Found %d files/directories'', [D (int (length files))])]"])
         (simp add: c Inr s2 logf_def)
  qed
qed

lemma walkFn_fst:
  "localPath s = localPath s' \<Longrightarrow> fst (walkFn env vs files s) = fst (walkFn env vs files s')"
proof (induction vs arbitrary: files s s')
  case Nil
  then show ?case by simp
next
  case (Cons v vs)
  obtain path info err where v: "v = (path, info, err)" by (cases v) auto
  have l: "\<And>a b c t. localPath (logf a b c t) = localPath t" by (simp add: logf_def)
  show ?case unfolding v using Cons.prems
    by (auto split: option.splits sum.splits simp: l intro!: Cons.IH)
qed

lemma collectLocalFiles_fst_logf:
  "fst (collectLocalFiles env (logf l f a s)) = fst (collectLocalFiles env s)"
proof -
  have lp: "localPath (logf l f a s) = localPath s" by (simp add: logf_def)
  have "fst (walkFn env (fp_Walk env (localPath s)) []
          (logf Info ''Collecting files from: %s'' [S (localPath s)] (logf l f a s)))
      = fst (walkFn env (fp_Walk env (localPath s)) []
          (logf Info ''Collecting files from: %s'' [S (localPath s)] s))"
    by (rule walkFn_fst) (simp add: logf_def)
  then show ?thesis
    unfolding collectLocalFiles_def Let_def lp
    by (auto split: prod.splits sum.splits)
qed

lemma uploadFiles_snd:
  "snd (uploadFiles env files base s) = sy (run_pool env base (init_pool s files))"
  by (simp add: uploadFiles_def Let_def)

lemma uploadFiles_fst:
  "fst (uploadFiles env files base s) = None \<longleftrightarrow> errors (run_pool env base (init_pool s files)) = []"
  by (simp add: uploadFiles_def Let_def split: list.splits)

lemma uploadFiles_events:
  "\<forall>ev \<in> set (new_trace s (snd (uploadFiles env files base s))). pool_event env base files ev"
  unfolding uploadFiles_snd by (rule run_pool_events)

lemma uploadFiles_grow:
  "trace (snd (uploadFiles env files base s)) = trace s @ new_trace s (snd (uploadFiles env files base s))"
proof -
  from run_pool_grow[of env base "init_pool s files"] obtain evs where
    "trace (sy (run_pool env base (init_pool s files))) = trace s @ evs"
    by (auto simp: init_pool_def)
  then show ?thesis by (simp add: uploadFiles_snd new_trace_def)
qed

lemma call_trace:
  "call op s = (e, s') \<Longrightarrow> trace s' = trace s @ [Called op e]"
  by (auto simp: call_def Let_def split: prod.splits)

lemma call_remotePath:
  "call op s = (e, s') \<Longrightarrow> remotePath s' = remotePath s"
  by (auto simp: call_def Let_def split: prod.splits)

lemma new_trace_eq: "trace s' = trace s @ evs \<Longrightarrow> new_trace s s' = evs"
  by (simp add: new_trace_def)

lemma pool_event_quiet:
  "pool_event env base files ev \<Longrightarrow> \<not> is_rename ev \<and> \<not> is_remove ev \<and> \<not> is_stat ev"
  by (cases "(env, base, files, ev)" rule: pool_event.cases) auto

lemma is_mkdir_of_quiet:
  "is_mkdir_of target ev \<Longrightarrow> \<not> is_rename ev \<and> \<not> is_remove ev \<and> \<not> is_stat ev"
  by (cases "(target, ev)" rule: is_mkdir_of.cases) auto

lemma incrementalSync_trace:
  "\<exists>evs. trace (snd (incrementalSync env s)) = trace s @ evs
        \<and> (\<forall>ev \<in> set evs. incr_event env (remotePath s) (local_entries env s) ev)"
proof -
  define s1 where "s1 = logf Info ''Performing incremental synchronization...'' [] s"
  obtain r s2 where c: "collectLocalFiles env s1 = (r, s2)" by force
  from collectLocalFiles_logs[of env s1] c obtain ls where "s2 = s1\<lparr>logger := logger s1 @ ls\<rparr>"
    by auto
  then have s2: "trace s2 = trace s" "remotePath s2 = remotePath s"
    by (simp_all add: s1_def logf_def)
  show ?thesis
  proof (cases r)
    case (Inl e)
    have "snd (incrementalSync env s) = s2"
      using c Inl by (simp add: incrementalSync_def Let_def s1_def)
    then show ?thesis using s2 by simp
  next
    case (Inr files)
    have "fst (collectLocalFiles env s) = Inr files"
      using c Inr collectLocalFiles_fst_logf[of env Info "''Performing incremental synchronization...''" "[]" s]
      by (simp add: s1_def)
    then have files: "files = local_entries env s"
      by (simp add: local_entries_def)
    define s3 where "s3 = barStart (s2\<lparr>totalSize := calcTotalSize files\<rparr>)"
    have s3: "trace s3 = trace s" "remotePath s3 = remotePath s"
      using s2 by (simp_all add: s3_def barStart_def)
    obtain e s4 where m: "call (MkdirAll (remotePath s)) s3 = (e, s4)" by force
    have s4: "trace s4 = trace s @ [Called (MkdirAll (remotePath s)) e]" "remotePath s4 = remotePath s"
      using call_trace[OF m] call_remotePath[OF m] s3 by simp_all
    have mk: "incr_event env (remotePath s) files (Called (MkdirAll (remotePath s)) e)"
      by (simp add: incr_event_def)
    show ?thesis
    proof (cases e)
      case (Some x)
      have "snd (incrementalSync env s) = barFinish s4"
        using c Inr m Some s3 by (simp add: incrementalSync_def Let_def s1_def s3_def)
      then show ?thesis using s4 mk files by (simp add: barFinish_def)
    next
      case None
      define s5 where "s5 = snd (uploadFiles env files (remotePath s) s4)"
      have "snd (incrementalSync env s) = barFinish s5"
        using c Inr m None s3 s4
        by (simp add: incrementalSync_def Let_def s1_def s3_def s5_def split: prod.splits option.splits)
      moreover have "trace s5 = trace s4 @ new_trace s4 s5"
        unfolding s5_def by (rule uploadFiles_grow)
      moreover have "\<forall>ev \<in> set (new_trace s4 s5). pool_event env (remotePath s) files ev"
        unfolding s5_def by (rule uploadFiles_events)
      ultimately show ?thesis using s4 mk files
        by (simp add: barFinish_def incr_event_def)
    qed
  qed
qed

section \<open>The steps of fullSync\<close>

lemma fullSync_stage_Inr:
  assumes "fullSync_stage env s = Inr (files, temp, s1)"
  shows "trace s1 = trace s @ [Called (MkdirAll temp) None]"
    and "temp = fp_Join env (fp_Dir env (remotePath s))
                  (''.sync_tmp_'' @ time_Format env (time_Now env (clock_reads s)))"
    and "files = local_entries env s"
    and "remotePath s1 = remotePath s"
proof -
  define s0 where "s0 = logf Info ''Performing full synchronization...'' [] s"
  obtain r s2 where c: "collectLocalFiles env s0 = (r, s2)" by force
  from collectLocalFiles_logs[of env s0] c obtain ls where "s2 = s0\<lparr>logger := logger s0 @ ls\<rparr>"
    by auto
  then have s2: "trace s2 = trace s" "remotePath s2 = remotePath s" "clock_reads s2 = clock_reads s"
    by (simp_all add: s0_def logf_def)
  from assms c obtain fs where r: "r = Inr fs"
    by (cases r) (auto simp: fullSync_stage_def Let_def s0_def)
  have "fst (collectLocalFiles env s) = Inr fs"
    using c r collectLocalFiles_fst_logf[of env Info "''Performing full synchronization...''" "[]" s]
    by (simp add: s0_def)
  then have fs: "fs = local_entries env s"
    by (simp add: local_entries_def)
  define tp where "tp = fp_Join env (fp_Dir env (remotePath s))
                  (''.sync_tmp_'' @ time_Format env (time_Now env (clock_reads s)))"
  define s5 where "s5 = logf Info ''Creating temporary directory: %s'' [S tp]
     (snd (now env (barStart (s2\<lparr>totalSize := calcTotalSize fs\<rparr>))))"
  have s5: "trace s5 = trace s" "remotePath s5 = remotePath s"
    using s2 by (simp_all add: s5_def logf_def now_def barStart_def)
  obtain e s6 where m: "call (MkdirAll tp) s5 = (e, s6)" by force
  have st: "fullSync_stage env s =
     (case e of Some x \<Rightarrow> Inl (Some (''failed to create temporary directory: '' @ x), barFinish s6)
      | None \<Rightarrow> Inr (fs, tp, s6))"
    using c r m s2
    by (simp add: fullSync_stage_def Let_def s0_def s5_def tp_def now_def barStart_def
             split: prod.splits option.splits)
  with assms have e: "e = None" "files = fs" "temp = tp" "s1 = s6" by (cases e; simp)+
  show "trace s1 = trace s @ [Called (MkdirAll temp) None]"
    using call_trace[OF m] s5 e by simp
  show "temp = fp_Join env (fp_Dir env (remotePath s))
                  (''.sync_tmp_'' @ time_Format env (time_Now env (clock_reads s)))"
    using e tp_def by simp
  show "files = local_entries env s" using e fs by simp
  show "remotePath s1 = remotePath s" using call_remotePath[OF m] s5 e by simp
qed

lemma fullSync_deferred_fst: "fst (fullSync_deferred temp rs) = fst rs"
  by (simp add: fullSync_deferred_def Let_def split: prod.splits option.splits)

lemma fullSync_deferred_trace:
  "\<exists>x. trace (snd (fullSync_deferred temp rs)) = trace (snd rs) @ [Called (RemoveDirectory temp) x]"
proof -
  define s1 where "s1 = logf Info ''Cleaning up temporary directory: %s'' [S temp] (snd rs)"
  obtain e s2 where c: "call (RemoveDirectory temp) s1 = (e, s2)" by force
  have "trace s2 = trace (snd rs) @ [Called (RemoveDirectory temp) e]"
    using call_trace[OF c] by (simp add: s1_def logf_def)
  moreover have "trace (snd (fullSync_deferred temp rs)) = trace s2"
    using c by (simp add: fullSync_deferred_def Let_def s1_def barFinish_def logf_def split: option.splits)
  ultimately show ?thesis by simp
qed

lemma filter_length_mono:
  assumes "\<And>x. P x \<Longrightarrow> Q x"
  shows "length (filter P xs) \<le> length (filter Q xs)"
  using assms by (induction xs) auto

lemma transfer_failure_failed: "transfer_failure ev \<Longrightarrow> failed ev \<and> \<not> meta_failure ev"
  by (cases ev rule: transfer_failure.cases) auto

lemma pool_event_meta_call: "pool_event env base files ev \<Longrightarrow> meta_call env base files ev"
  by (cases "(env, base, files, ev)" rule: meta_call.cases) auto

lemma queued_bytes_sizes:
  assumes "\<forall>f \<in> set files. \<not> IsDir f \<longrightarrow> local_bytes env f = Size f"
  shows "queued_bytes env files = (\<Sum>f\<leftarrow>filter (\<lambda>f. \<not> IsDir f) files. Size f)"
  using assms by (induction files) (auto simp: local_bytes_def)

lemma wstep_config:
  assumes "wstep env base w q = (w', q')"
  shows "client (sy q') = client (sy q) \<and> remotePath (sy q') = remotePath (sy q)
       \<and> workers (sy q') = workers (sy q)"
  using assms by (cases w) (auto simp: call_defs split: wstep_splits)

lemma uploadFiles_config:
  "client (snd (uploadFiles env files base s)) = client s
   \<and> remotePath (snd (uploadFiles env files base s)) = remotePath s
   \<and> workers (snd (uploadFiles env files base s)) = workers s"
proof -
  let ?P = "\<lambda>q. client (sy q) = client s \<and> remotePath (sy q) = remotePath s \<and> workers (sy q) = workers s"
  have "?P (run_pool env base (init_pool s files))"
  proof (rule run_pool_induct[of ?P])
    show "?P (init_pool s files)" by (simp add: init_pool_def)
  next
    fix q :: "'a pool" and i
    assume h: "?P q" and i: "i < length (ws q)"
    from i obtain w' q' where st: "wstep env base (ws q ! i) q = (w', q')"
      and t: "tick env base q i = q'\<lparr>ws := (ws q)[i := w']\<rparr>" by (rule tick_cases)
    from wstep_config[OF st] h show "?P (tick env base q i)" by (simp add: t)
  qed
  then show ?thesis by (simp add: uploadFiles_snd)
qed

lemma call_client: "call op s = (e, s') \<Longrightarrow> client s' = client s"
  by (auto simp: call_def Let_def split: prod.splits)

lemma call_remote: "call op s = (e, s') \<Longrightarrow> (e, remote s') = client s op (remote s)"
  by (auto simp: call_def Let_def split: prod.splits)

lemma fullSync_stage_client:
  assumes "fullSync_stage env s = Inr (files, temp, s1)"
  shows "client s1 = client s"
proof -
  define s0 where "s0 = logf Info ''Performing full synchronization...'' [] s"
  obtain r s2 where c: "collectLocalFiles env s0 = (r, s2)" by force
  from collectLocalFiles_logs[of env s0] c obtain ls where "s2 = s0\<lparr>logger := logger s0 @ ls\<rparr>"
    by auto
  then have s2: "client s2 = client s" by (simp add: s0_def logf_def)
  from assms c obtain fs where r: "r = Inr fs"
    by (cases r) (auto simp: fullSync_stage_def Let_def s0_def)
  define tp where "tp = fp_Join env (fp_Dir env (remotePath s2))
                  (''.sync_tmp_'' @ time_Format env (time_Now env (clock_reads s2)))"
  define s5 where "s5 = logf Info ''Creating temporary directory: %s'' [S tp]
     (snd (now env (barStart (s2\<lparr>totalSize := calcTotalSize fs\<rparr>))))"
  have s5: "client s5 = client s"
    using s2 by (simp add: s5_def logf_def now_def barStart_def)
  obtain e s6 where m: "call (MkdirAll tp) s5 = (e, s6)" by force
  have st: "fullSync_stage env s =
     (case e of Some x \<Rightarrow> Inl (Some (''failed to create temporary directory: '' @ x), barFinish s6)
      | None \<Rightarrow> Inr (fs, tp, s6))"
    using c r m
    by (simp add: fullSync_stage_def Let_def s0_def s5_def tp_def now_def barStart_def
             split: prod.splits option.splits)
  with assms have "s1 = s6" by (cases e; simp)
  then show ?thesis using call_client[OF m] s5 by simp
qed

lemma fullSync_mkbackup_Inr:
  assumes "fullSync_mkbackup env s = Inr (backupPath, s')"
  shows "client s' = client s" and "remotePath s' = remotePath s"
    and "backupPath = remotePath s @ ''.bak_'' @ time_Format env (time_Now env (clock_reads s))"
proof -
  define bp where "bp = remotePath s @ ''.bak_'' @ time_Format env (time_Now env (clock_reads s))"
  define s2 where "s2 = logf Info ''Creating backup at: %s'' [S bp] (snd (now env s))"
  have s2: "client s2 = client s" "remotePath s2 = remotePath s"
    by (simp_all add: s2_def logf_def now_def)
  obtain e s3 where c1: "call (Stat (remotePath s)) s2 = (e, s3)" by force
  obtain e' s4 where c2: "call (Rename (remotePath s) bp) s3 = (e', s4)" by force
  have mk: "fullSync_mkbackup env s =
     (case e of None \<Rightarrow> (case e' of Some x \<Rightarrow> Inl (Some (''failed to create backup: '' @ x), s4)
                                   | None \<Rightarrow> Inr (bp, s4))
      | Some x \<Rightarrow> Inr (bp, s3))"
    using c1 c2
    by (simp add: fullSync_mkbackup_def Let_def now_def s2_def bp_def split: option.splits)
  have 3: "client s3 = client s" "remotePath s3 = remotePath s"
    using call_client[OF c1] call_remotePath[OF c1] s2 by simp_all
  have 4: "client s4 = client s" "remotePath s4 = remotePath s"
    using call_client[OF c2] call_remotePath[OF c2] 3 by simp_all
  from assms mk have "backupPath = bp \<and> (s' = s3 \<or> s' = s4)"
    by (cases e; cases e'; simp)
  then show "client s' = client s" "remotePath s' = remotePath s"
    "backupPath = remotePath s @ ''.bak_'' @ time_Format env (time_Now env (clock_reads s))"
    using 3 4 by (auto simp: bp_def)
qed

lemma fullSync_deferred_snd:
  "snd (fullSync_deferred temp (a, s)) = snd (fullSync_deferred temp (b, s))"
  by (simp add: fullSync_deferred_def Let_def split: prod.splits option.splits)

text \<open>When the pool fails in \<open>fullSync\<close>, the call fails with the upload error; after the
  pool's calls the only call is the removal of the staging directory, whatever it
  answers. No \<open>Rename\<close> and no \<open>Stat\<close> is made, and all calls name the staging directory
  or, for a local entry, its path under the staging directory or that path's parent.\<close>

lemma fullSync_failed_upload_calls:
  assumes "fullSync_stage env s = Inr (files, temp, s1)"
      and "fst (uploadFiles env files temp s1) = Some e"
  shows "fst (fullSync env s) = Some (''failed to upload files: '' @ e)
       \<and> (\<exists>x. new_trace s (snd (fullSync env s))
               = Called (MkdirAll temp) None # new_trace s1 (snd (uploadFiles env files temp s1))
                 @ [Called (RemoveDirectory temp) x])
       \<and> (\<forall>ev \<in> set (new_trace s1 (snd (uploadFiles env files temp s1))).
             pool_event env temp files ev \<and> \<not> is_rename ev \<and> \<not> is_remove ev \<and> \<not> is_stat ev)"
proof -
  define rs where "rs = uploadFiles env files temp s1"
  have up: "fullSync_upload env files temp s1 = (Some (''failed to upload files: '' @ e), snd rs)"
    using assms(2) by (cases rs) (auto simp: fullSync_upload_def rs_def)
  have fs: "fullSync env s = fullSync_deferred temp (Some (''failed to upload files: '' @ e), snd rs)"
    using assms(1) up by (simp add: fullSync_def)
  have 1: "fst (fullSync env s) = Some (''failed to upload files: '' @ e)"
    unfolding fs by (simp add: fullSync_deferred_fst)
  from fullSync_deferred_trace[of temp "(Some (''failed to upload files: '' @ e), snd rs)"]
  obtain x where "trace (snd (fullSync env s)) = trace (snd rs) @ [Called (RemoveDirectory temp) x]"
    unfolding fs by auto
  moreover have "trace (snd rs) = trace s1 @ new_trace s1 (snd rs)"
    unfolding rs_def by (rule uploadFiles_grow)
  ultimately have "trace (snd (fullSync env s))
      = trace s @ (Called (MkdirAll temp) None # new_trace s1 (snd rs) @ [Called (RemoveDirectory temp) x])"
    using fullSync_stage_Inr(1)[OF assms(1)] by simp
  then have 2: "new_trace s (snd (fullSync env s))
      = Called (MkdirAll temp) None # new_trace s1 (snd rs) @ [Called (RemoveDirectory temp) x]"
    by (rule new_trace_eq)
  have 3: "\<forall>ev \<in> set (new_trace s1 (snd rs)).
             pool_event env temp files ev \<and> \<not> is_rename ev \<and> \<not> is_remove ev \<and> \<not> is_stat ev"
    using uploadFiles_events[of s1 env files temp] pool_event_quiet unfolding rs_def by blast
  show ?thesis using 1 2 3 unfolding rs_def by blast
qed

lemma stage_projr:
  assumes "case x of Inl a \<Rightarrow> False | Inr (fs, t, s1) \<Rightarrow> fs = F \<and> t = T"
  shows "x = Inr (F, T, snd (snd (projr x)))"
  using assms by (cases x) auto

lemma backup_projr:
  assumes "case x of Inl a \<Rightarrow> False | Inr (b, s3) \<Rightarrow> b = B \<and> remote s3 = R"
  shows "x = Inr (B, snd (projr x)) \<and> remote (snd (projr x)) = R"
  using assms by (cases x) auto

lemma ex_identical_run:
  "case incrementalSync ex_env1 ex_identical of
     (r, s') \<Rightarrow>
        r = None
        \<and> new_trace ex_identical s'
            = [Called (MkdirAll ''/r/w'') None, Opened ''/l/a'' None,
               Called (MkdirAll ''/r/w'') None, Called (Create ''/r/w/a'') None,
               ReadChunk ''/l/a'' 3 RNil, Called (Write ''/r/w/a'' ''abc'') None,
               ReadChunk ''/l/a'' 2 RNil, Called (Write ''/r/w/a'' ''de'') None,
               ReadChunk ''/l/a'' 0 REOF, Called (Chmod ''/r/w/a'' 420) None,
               Called (Chtimes ''/r/w/a'' 1000 7) None, Called (Close ''/r/w/a'') None]
        \<and> remote s' = remote ex_identical
        \<and> syncedSize s' = 5"
  by code_simp

lemma ex_first_run:
  "case incrementalSync ex_env1 (ex_plain 1) of
     (r, s') \<Rightarrow> r = None \<and> remote s' = remote ex_identical"
  by code_simp

lemma run_pool_no_workers:
  assumes "ws p = []"
  shows "run_pool env base p = p"
proof -
  have "run_pool env base p = p \<and> ws (run_pool env base p) = []"
    by (rule run_pool_induct[where P = "\<lambda>q. q = p \<and> ws q = []"]) (use assms in auto)
  then show ?thesis by simp
qed

section \<open>Paths at and below a path\<close>

lemma below_iff: "below a k \<longleftrightarrow> k = a \<or> (\<exists>r. k = a @ ''/'' @ r)"
proof -
  have "take (Suc (length a)) k = a @ ''/'' \<longleftrightarrow> (\<exists>r. k = a @ ''/'' @ r)"
  proof
    assume h: "take (Suc (length a)) k = a @ ''/''"
    have "k = take (Suc (length a)) k @ drop (Suc (length a)) k" by simp
    with h have "k = a @ ''/'' @ drop (Suc (length a)) k" by simp
    then show "\<exists>r. k = a @ ''/'' @ r" by blast
  next
    assume "\<exists>r. k = a @ ''/'' @ r"
    then obtain r where "k = a @ ''/'' @ r" by blast
    then show "take (Suc (length a)) k = a @ ''/''" by simp
  qed
  then show ?thesis by (simp add: below_def)
qed

lemma below_step:
  assumes "p @ x = t @ ''/'' @ y" "x = [] \<or> (\<exists>r. x = ''/'' @ r)"
  shows "below p t \<or> below t p"
proof -
  from assms(1) obtain us where
    "(p = t @ us \<and> us @ x = ''/'' @ y) \<or> (p @ us = t \<and> x = us @ ''/'' @ y)"
    by (auto simp: append_eq_append_conv2)
  then show ?thesis
  proof
    assume a: "p = t @ us \<and> us @ x = ''/'' @ y"
    show ?thesis
    proof (cases us)
      case Nil
      with a show ?thesis by (simp add: below_iff)
    next
      case (Cons c us')
      with a have "c = CHR ''/''" by simp
      with a Cons have "p = t @ ''/'' @ us'" by simp
      then show ?thesis by (auto simp: below_iff)
    qed
  next
    assume a: "p @ us = t \<and> x = us @ ''/'' @ y"
    show ?thesis
    proof (cases us)
      case Nil
      with a show ?thesis by (auto simp: below_iff)
    next
      case (Cons c us')
      from assms(2) a Cons have "c = CHR ''/''" by auto
      with a Cons have "t = p @ ''/'' @ us'" by auto
      then show ?thesis by (auto simp: below_iff)
    qed
  qed
qed

lemma below_comparable:
  assumes "below p k" "below t k"
  shows "below p t \<or> below t p"
proof -
  from assms(2) consider "k = t" | r where "k = t @ ''/'' @ r" by (auto simp: below_iff)
  then show ?thesis
  proof cases
    case 1
    with assms(1) show ?thesis by simp
  next
    case 2
    from assms(1) consider "k = p" | r' where "k = p @ ''/'' @ r'" by (auto simp: below_iff)
    then show ?thesis
    proof cases
      case 1
      with assms(2) show ?thesis by simp
    next
      case 2
      with \<open>k = t @ ''/'' @ r\<close> have "p @ (''/'' @ r') = t @ ''/'' @ r" by simp
      then show ?thesis by (rule below_step) auto
    qed
  qed
qed

lemma below_moved: "below a k \<Longrightarrow> below b (b @ drop (length a) k)"
  by (auto simp: below_iff)

section \<open>The example server leaves alone what lies apart\<close>

lemma filter_map_keys:
  assumes keep: "\<And>k x. P k \<Longrightarrow> f (k, x) = (k, x)"
      and out: "\<And>k x. \<not> P k \<Longrightarrow> \<not> P (fst (f (k, x)))"
  shows "filter (\<lambda>(k, x). P k) (map f xs) = filter (\<lambda>(k, x). P k) xs"
proof (induction xs)
  case Nil
  show ?case by simp
next
  case (Cons a xs)
  obtain k x where a: "a = (k, x)" by (cases a)
  show ?case
  proof (cases "P k")
    case True
    with keep[of k x] Cons show ?thesis by (simp add: a)
  next
    case False
    with out[of k x] Cons show ?thesis by (simp add: a case_prod_beta)
  qed
qed

lemma subtree_put:
  assumes "\<not> below t p"
  shows "subtree t (put p v m) = subtree t m"
proof -
  have "filter (\<lambda>(k, x). below t k) (map (\<lambda>(k, x). if k = p then (k, v) else (k, x)) (nodes m))
        = filter (\<lambda>(k, x). below t k) (nodes m)"
    by (rule filter_map_keys) (use assms in auto)
  then show ?thesis using assms by (simp add: subtree_def put_def)
qed

lemma subtree_remove:
  assumes "apart t p"
  shows "filter (\<lambda>y. (case y of (k, x) \<Rightarrow> \<not> below p k) \<and> (case y of (k, x) \<Rightarrow> below t k)) xs
       = filter (\<lambda>(k, x). below t k) xs"
proof -
  have "below t k \<Longrightarrow> \<not> below p k" for k
    using below_comparable[of p k t] assms by (auto simp: apart_def)
  then show ?thesis by (intro filter_cong[OF refl]) auto
qed

lemma subtree_rename:
  assumes "apart t a" "apart t b"
  shows "filter (\<lambda>(k, x). below t k) (map (\<lambda>(k, x). (if below a k then b @ drop (length a) k else k, x)) xs)
       = filter (\<lambda>(k, x). below t k) xs"
proof (rule filter_map_keys)
  fix k :: string and x :: 'a
  assume "below t k"
  then have "\<not> below a k"
    using below_comparable[of a k t] assms(1) by (auto simp: apart_def)
  then show "(case (k, x) of (k, x) \<Rightarrow> (if below a k then b @ drop (length a) k else k, x)) = (k, x)"
    by simp
next
  fix k :: string and x :: 'a
  assume n: "\<not> below t k"
  have "below a k \<Longrightarrow> \<not> below t (b @ drop (length a) k)"
    using below_comparable[of b "b @ drop (length a) k" t] below_moved[of a k b] assms(2)
    by (auto simp: apart_def)
  with n show "\<not> below t (fst (case (k, x) of (k, x) \<Rightarrow> (if below a k then b @ drop (length a) k else k, x)))"
    by simp
qed

lemma mem_do_frame:
  assumes "list_all (apart t) (paths_of op)"
  shows "subtree t (snd (mem_do op m)) = subtree t m"
proof (cases op)
  case (Rename a b)
  with assms show ?thesis by (simp add: subtree_def subtree_rename)
next
  case (RemoveDirectory p)
  with assms show ?thesis by (simp add: subtree_def subtree_remove)
qed (use assms in \<open>auto simp: subtree_put apart_def split: option.splits node.splits\<close>)

lemma mem_client_frame: "frame_ok (apart t) (subtree t) mem_client"
  unfolding frame_ok_def mem_client_def
  by (auto simp: mem_do_frame split: option.splits)

section \<open>A failed upload on a server that leaves alone what lies outside\<close>

lemma call_frame:
  assumes "call op s = (e, s')" "frame_ok outside obs (client s)" "list_all outside (paths_of op)"
  shows "obs (remote s') = obs (remote s)"
  using assms by (auto simp: call_def frame_ok_def Let_def split: prod.splits dest!: spec[of _ op] spec[of _ "remote s"])

lemma call_obs:
  assumes "frame_ok outside obs (client s)" "list_all outside (paths_of op)"
  shows "obs (remote (snd (call op s))) = obs (remote s)"
  using assms call_frame[of op s "fst (call op s)" "snd (call op s)" outside obs] by simp

lemma logf_fields [simp]:
  "remote (logf l f a s) = remote s" "client (logf l f a s) = client s"
  "remote (record_ev ev s) = remote s" "client (record_ev ev s) = client s"
  "remote (snd (now env s)) = remote s" "client (snd (now env s)) = client s"
  "remote (barFinish s) = remote s"
  by (simp_all add: logf_def record_ev_def now_def barFinish_def)

lemma wstep_frame:
  assumes st: "wstep env base w q = (w', q')"
      and ok: "wentry_ok files w" and jb: "set (jobs q) \<subseteq> set files"
      and fr: "frame_ok outside obs (client (sy q))"
      and out: "list_all outside (file_paths env base files)" "list_all outside (dir_paths env base files)"
  shows "obs (remote (sy q')) = obs (remote (sy q))"
proof -
  have f1: "f \<in> set files \<Longrightarrow> \<not> IsDir f \<Longrightarrow> outside (fp_Join env base (RelPath f))" for f
    using out(1) file_paths_mem[of f files env base] by (auto simp: list_all_iff)
  have f2: "f \<in> set files \<Longrightarrow> \<not> IsDir f \<Longrightarrow> outside (fp_Dir env (fp_Join env base (RelPath f)))" for f
    using out(2) dir_paths_mem(2)[of f files env base] by (auto simp: list_all_iff)
  have d: "f \<in> set files \<Longrightarrow> IsDir f \<Longrightarrow> outside (fp_Join env base (RelPath f))" for f
    using out(2) dir_paths_mem(1)[of f files env base] by (auto simp: list_all_iff)
  note co = call_obs[of outside obs]
  show ?thesis
    using st ok fr
    by (cases w)
       (auto simp: Let_def case_prod_beta co f1 f2 d split: list.splits sum.splits option.splits if_splits)
qed

lemma tick_frame:
  fixes q :: "'r pool"
  assumes inv: "pool_inv env base files t0 q" and i: "i < length (ws q)"
      and fr: "frame_ok outside obs (client (sy q))"
      and out: "list_all outside (file_paths env base files)" "list_all outside (dir_paths env base files)"
  shows "obs (remote (sy (tick env base q i))) = obs (remote (sy q))"
proof -
  from i obtain w' q' where st: "wstep env base (ws q ! i) q = (w', q')"
    and t: "tick env base q i = q'\<lparr>ws := (ws q)[i := w']\<rparr>" by (rule tick_cases)
  from inv i have "wentry_ok files (ws q ! i)" "set (jobs q) \<subseteq> set files"
    by (auto simp: pool_inv_def)
  from wstep_frame[OF st this fr out] show ?thesis by (simp add: t)
qed

lemma tick_client:
  fixes q :: "'r pool"
  shows "client (sy (tick env base q i)) = client (sy q)"
proof (cases "i < length (ws q)")
  case True
  then obtain w' q' where st: "wstep env base (ws q ! i) q = (w', q')"
    and t: "tick env base q i = q'\<lparr>ws := (ws q)[i := w']\<rparr>" by (rule tick_cases)
  from wstep_config[OF st] show ?thesis by (simp add: t)
next
  case False
  then show ?thesis by (simp add: tick_out_of_range)
qed

lemma uploadFiles_frame:
  assumes fr: "frame_ok outside obs (client s)"
      and out: "list_all outside (file_paths env base files)" "list_all outside (dir_paths env base files)"
  shows "obs (remote (snd (uploadFiles env files base s))) = obs (remote s)"
proof -
  let ?P = "\<lambda>q. pool_inv env base files (trace s) q \<and> client (sy q) = client s
               \<and> obs (remote (sy q)) = obs (remote s)"
  have "?P (run_pool env base (init_pool s files))"
  proof (rule run_pool_induct[of ?P])
    show "?P (init_pool s files)" by (simp add: pool_inv_def init_pool_def)
  next
    fix q :: "'a pool" and i
    assume h: "?P q" and i: "i < length (ws q)"
    from h have inv: "pool_inv env base files (trace s) q" and c: "client (sy q) = client s"
      and o: "obs (remote (sy q)) = obs (remote s)" by simp_all
    have "frame_ok outside obs (client (sy q))" using fr c by simp
    from tick_frame[OF inv i this out] tick_pool_inv[OF inv i] tick_client[of env base q i] c o
    show "?P (tick env base q i)" by simp
  qed
  then show ?thesis by (simp add: uploadFiles_snd)
qed

lemma fullSync_stage_frame:
  assumes st: "fullSync_stage env s = Inr (files, temp, s1)"
      and fr: "frame_ok outside obs (client s)" and out: "outside temp"
  shows "obs (remote s1) = obs (remote s)"
proof -
  define s0 where "s0 = logf Info ''Performing full synchronization...'' [] s"
  obtain r s2 where c: "collectLocalFiles env s0 = (r, s2)" by force
  from collectLocalFiles_logs[of env s0] c obtain ls where "s2 = s0\<lparr>logger := logger s0 @ ls\<rparr>"
    by auto
  then have s2: "client s2 = client s" "remote s2 = remote s"
    by (simp_all add: s0_def logf_def)
  from st c obtain fs where r: "r = Inr fs"
    by (cases r) (auto simp: fullSync_stage_def Let_def s0_def)
  define tp where "tp = fp_Join env (fp_Dir env (remotePath s2))
                  (''.sync_tmp_'' @ time_Format env (time_Now env (clock_reads s2)))"
  define s5 where "s5 = logf Info ''Creating temporary directory: %s'' [S tp]
     (snd (now env (barStart (s2\<lparr>totalSize := calcTotalSize fs\<rparr>))))"
  have s5: "client s5 = client s" "remote s5 = remote s"
    using s2 by (simp_all add: s5_def logf_def now_def barStart_def)
  obtain e s6 where m: "call (MkdirAll tp) s5 = (e, s6)" by force
  have stg: "fullSync_stage env s =
     (case e of Some x \<Rightarrow> Inl (Some (''failed to create temporary directory: '' @ x), barFinish s6)
      | None \<Rightarrow> Inr (fs, tp, s6))"
    using c r m
    by (simp add: fullSync_stage_def Let_def s0_def s5_def tp_def now_def barStart_def
             split: prod.splits option.splits)
  with st have "s1 = s6" "temp = tp" by (cases e; simp)+
  moreover have "obs (remote s6) = obs (remote s5)"
    by (rule call_frame[OF m, of outside obs]) (use fr s5 out \<open>temp = tp\<close> in simp_all)
  ultimately show ?thesis using s5 by simp
qed

lemma fullSync_deferred_frame:
  assumes "frame_ok outside obs (client (snd rs))" "outside temp"
  shows "obs (remote (snd (fullSync_deferred temp rs))) = obs (remote (snd rs))"
proof -
  define s1 where "s1 = logf Info ''Cleaning up temporary directory: %s'' [S temp] (snd rs)"
  obtain e s2 where c: "call (RemoveDirectory temp) s1 = (e, s2)" by force
  have "obs (remote s2) = obs (remote s1)"
    by (rule call_frame[OF c, of outside obs]) (use assms in \<open>simp_all add: s1_def\<close>)
  moreover have "remote (snd (fullSync_deferred temp rs)) = remote s2"
    using c by (simp add: fullSync_deferred_def Let_def s1_def barFinish_def logf_def split: option.splits)
  ultimately show ?thesis by (simp add: s1_def)
qed

text \<open>On a server that leaves alone what a request does not name, a failed upload leaves
  alone whatever the staging directory and the paths under it are outside of.\<close>

lemma fullSync_failed_upload_frame:
  assumes st: "fullSync_stage env s = Inr (files, temp, s1)"
      and fail: "fst (uploadFiles env files temp s1) = Some e"
      and fr: "frame_ok outside obs (client s)"
      and out: "outside temp" "list_all outside (file_paths env temp files)"
               "list_all outside (dir_paths env temp files)"
  shows "obs (remote (snd (fullSync env s))) = obs (remote s)"
proof -
  define rs where "rs = uploadFiles env files temp s1"
  have c1: "client s1 = client s" by (rule fullSync_stage_client[OF st])
  have c2: "client (snd rs) = client s"
    using uploadFiles_config[of env files temp s1] c1 by (simp add: rs_def)
  have up: "fullSync_upload env files temp s1 = (Some (''failed to upload files: '' @ e), snd rs)"
    using fail by (cases rs) (auto simp: fullSync_upload_def rs_def)
  have fs: "fullSync env s = fullSync_deferred temp (Some (''failed to upload files: '' @ e), snd rs)"
    using st up by (simp add: fullSync_def)
  have "obs (remote (snd (fullSync env s))) = obs (remote (snd rs))"
    unfolding fs
    using fullSync_deferred_frame[of outside obs "(Some (''failed to upload files: '' @ e), snd rs)" temp]
          fr c2 out(1)
    by simp
  also have "\<dots> = obs (remote s1)"
    unfolding rs_def by (rule uploadFiles_frame[of outside obs]) (use fr c1 out in simp_all)
  also have "\<dots> = obs (remote s)"
    by (rule fullSync_stage_frame[OF st fr out(1)])
  finally show ?thesis .
qed

text \<open>The example server and the target \<open>/r/w\<close> given without a trailing slash: the
  staging directory and the paths under it lie apart from the target, and the failed
  upload leaves the target as it was, whether the staging directory can be removed or
  not.\<close>

lemma fullSync_failed_upload_frame_example:
  "apart ''/r/w'' ''/r/.sync_tmp_1000''
   \<and> list_all (apart ''/r/w'') (file_paths ex_env1 ''/r/.sync_tmp_1000'' [ex_a])
   \<and> list_all (apart ''/r/w'') (dir_paths ex_env1 ''/r/.sync_tmp_1000'' [ex_a])
   \<and> subtree ''/r/w'' (remote (snd (fullSync ex_env1 ex_staged_write_fails)))
       = subtree ''/r/w'' (remote ex_staged_write_fails)"
proof -
  have "case fullSync_stage ex_env1 ex_staged_write_fails of Inl a \<Rightarrow> False
        | Inr (fs, t, s1) \<Rightarrow> fs = [ex_a] \<and> t = ''/r/.sync_tmp_1000''"
    by code_simp
  then have h1: "fullSync_stage ex_env1 ex_staged_write_fails
     = Inr ([ex_a], ''/r/.sync_tmp_1000'', staged ex_env1 ex_staged_write_fails)"
    unfolding staged_def by (rule stage_projr)
  have h2: "fst (uploadFiles ex_env1 [ex_a] ''/r/.sync_tmp_1000'' (staged ex_env1 ex_staged_write_fails))
       = Some ''worker error: failed to upload file a: failed to write to remote file: injected''"
    by code_simp
  have c: "client ex_staged_write_fails = mem_client"
    by (simp add: ex_staged_write_fails_def New_def)
  have o: "apart ''/r/w'' ''/r/.sync_tmp_1000''"
          "list_all (apart ''/r/w'') (file_paths ex_env1 ''/r/.sync_tmp_1000'' [ex_a])"
          "list_all (apart ''/r/w'') (dir_paths ex_env1 ''/r/.sync_tmp_1000'' [ex_a])"
    by (simp_all add: apart_def below_def file_paths_def dir_paths_def ex_a_def ex_env1_def ex_env_def)
  from fullSync_failed_upload_frame[OF h1 h2, of "apart ''/r/w''" "subtree ''/r/w''"]
       mem_client_frame[of "''/r/w''"] c o
  show ?thesis by simp
qed

section \<open>Properties of the engine\<close>

subsection \<open>The change decision is missing\<close>

text \<open>
  C1, at a failing input. The server already holds \<open>/r/w/a\<close> with the size and the
  modification time of the local file. \<open>incrementalSync\<close> makes no \<open>Stat\<close> call, creates
  the remote file again and writes its five bytes: the file is uploaded, not skipped.
\<close>

theorem incrementalSync_uploads_unchanged_file:
  "fst (incrementalSync ex_env1 ex_identical) = None
   \<and> filter is_stat (new_trace ex_identical (snd (incrementalSync ex_env1 ex_identical))) = []
   \<and> Called (Create ''/r/w/a'') None
        \<in> set (new_trace ex_identical (snd (incrementalSync ex_env1 ex_identical)))
   \<and> written (new_trace ex_identical (snd (incrementalSync ex_env1 ex_identical))) = 5
   \<and> syncedSize (snd (incrementalSync ex_env1 ex_identical)) = 5"
proof -
  obtain x s' where e: "incrementalSync ex_env1 ex_identical = (x, s')" by force
  from ex_identical_run e show ?thesis by simp
qed

subsection \<open>A second incremental run uploads again\<close>

text \<open>
  C2, at a failing input. A first incremental run succeeds; a second run, by a new
  \<open>Syncer\<close> on the server as the first run left it and with the local tree unchanged,
  opens and uploads the file again and transfers five bytes, not zero.
\<close>

theorem incrementalSync_second_run_uploads_again:
  "fst (incrementalSync ex_env1 (ex_plain 1)) = None
   \<and> New mem_client (remote (snd (incrementalSync ex_env1 (ex_plain 1)))) (ex_cfg ''incremental'' 1)
       = ex_identical
   \<and> fst (incrementalSync ex_env1 ex_identical) = None
   \<and> remote (snd (incrementalSync ex_env1 ex_identical)) = remote ex_identical
   \<and> length (filter (opens ''/l/a'') (new_trace ex_identical (snd (incrementalSync ex_env1 ex_identical)))) = 1
   \<and> syncedSize (snd (incrementalSync ex_env1 ex_identical)) = 5"
proof -
  obtain x s' where e: "incrementalSync ex_env1 ex_identical = (x, s')" by force
  obtain y s1 where f: "incrementalSync ex_env1 (ex_plain 1) = (y, s1)" by force
  have n: "New mem_client (remote ex_identical) (ex_cfg ''incremental'' 1) = ex_identical"
    by (simp add: ex_identical_def New_def)
  from ex_identical_run e ex_first_run f n show ?thesis by simp
qed

subsection \<open>A failed upload and a target given with a trailing slash\<close>

text \<open>
  C3, at a failing input. The target is given as \<open>/r/w/\<close>. Line 107 takes
  \<open>filepath.Dir\<close> of the remote path to put the staging directory beside the target, but
  for a path that ends with a slash \<open>Dir\<close> gives the target itself, and the staging
  directory \<open>/r/w/.sync_tmp_1000\<close> is made inside the target. The second chunk of \<open>a\<close>
  is refused, so the upload fails and \<open>fullSync\<close> returns the upload error, without a
  \<open>Stat\<close> or a \<open>Rename\<close>; the removal of the staging directory is asked for and
  refused. What the server holds at and below the target is not what it held before the
  call: the staging directory and the part of \<open>a\<close> that was written are in it. With the
  target given as \<open>/r/w\<close> the staging directory is \<open>/r/.sync_tmp_1000\<close>, and the same
  failure leaves what the server holds at and below the target as it was.
\<close>

theorem fullSync_failed_upload_changes_target:
  "remotePath ex_slash_fails = ''/r/w/''
   \<and> fst (fullSync ex_env1 ex_slash_fails)
       = Some ''failed to upload files: worker error: failed to upload file a: failed to write to remote file: injected''
   \<and> new_trace ex_slash_fails (snd (fullSync ex_env1 ex_slash_fails))
       = [Called (MkdirAll ''/r/w/.sync_tmp_1000'') None, Opened ''/l/a'' None,
          Called (MkdirAll ''/r/w/.sync_tmp_1000'') None,
          Called (Create ''/r/w/.sync_tmp_1000/a'') None,
          ReadChunk ''/l/a'' 3 RNil,
          Called (Write ''/r/w/.sync_tmp_1000/a'' ''abc'') None,
          ReadChunk ''/l/a'' 2 RNil,
          Called (Write ''/r/w/.sync_tmp_1000/a'' ''de'') (Some ''injected''),
          Called (Close ''/r/w/.sync_tmp_1000/a'') None,
          Called (RemoveDirectory ''/r/w/.sync_tmp_1000'') (Some ''directory not empty'')]
   \<and> subtree ''/r/w'' (remote ex_slash_fails)
       = [(''/r/w'', NDir), (''/r/w/old'', NFile ''x'' 420 0 0)]
   \<and> subtree ''/r/w'' (remote (snd (fullSync ex_env1 ex_slash_fails)))
       = [(''/r/w'', NDir), (''/r/w/old'', NFile ''x'' 420 0 0),
          (''/r/w/.sync_tmp_1000'', NDir), (''/r/w/.sync_tmp_1000/a'', NFile ''abc'' 0 0 0)]
   \<and> remotePath ex_staged_write_fails = ''/r/w''
   \<and> fst (fullSync ex_env1 ex_staged_write_fails)
       = Some ''failed to upload files: worker error: failed to upload file a: failed to write to remote file: injected''
   \<and> subtree ''/r/w'' (remote (snd (fullSync ex_env1 ex_staged_write_fails)))
       = [(''/r/w'', NDir), (''/r/w/old'', NFile ''x'' 420 0 0)]"
proof -
  have "case fullSync ex_env1 ex_staged_write_fails of
          (r, s') \<Rightarrow>
            r = Some ''failed to upload files: worker error: failed to upload file a: failed to write to remote file: injected''
            \<and> subtree ''/r/w'' (remote s') = [(''/r/w'', NDir), (''/r/w/old'', NFile ''x'' 420 0 0)]"
    by code_simp
  then have b: "fst (fullSync ex_env1 ex_staged_write_fails)
       = Some ''failed to upload files: worker error: failed to upload file a: failed to write to remote file: injected''
     \<and> subtree ''/r/w'' (remote (snd (fullSync ex_env1 ex_staged_write_fails)))
       = [(''/r/w'', NDir), (''/r/w/old'', NFile ''x'' 420 0 0)]"
    by (cases "fullSync ex_env1 ex_staged_write_fails") simp
  have c: "remotePath ex_staged_write_fails = ''/r/w''"
    by (simp add: ex_staged_write_fails_def New_def ex_cfg_def)
  have "case fullSync ex_env1 ex_slash_fails of
          (r, s') \<Rightarrow>
            r = Some ''failed to upload files: worker error: failed to upload file a: failed to write to remote file: injected''
            \<and> new_trace ex_slash_fails s'
              = [Called (MkdirAll ''/r/w/.sync_tmp_1000'') None, Opened ''/l/a'' None,
                 Called (MkdirAll ''/r/w/.sync_tmp_1000'') None,
                 Called (Create ''/r/w/.sync_tmp_1000/a'') None,
                 ReadChunk ''/l/a'' 3 RNil,
                 Called (Write ''/r/w/.sync_tmp_1000/a'' ''abc'') None,
                 ReadChunk ''/l/a'' 2 RNil,
                 Called (Write ''/r/w/.sync_tmp_1000/a'' ''de'') (Some ''injected''),
                 Called (Close ''/r/w/.sync_tmp_1000/a'') None,
                 Called (RemoveDirectory ''/r/w/.sync_tmp_1000'') (Some ''directory not empty'')]
            \<and> subtree ''/r/w'' (remote s')
              = [(''/r/w'', NDir), (''/r/w/old'', NFile ''x'' 420 0 0),
                 (''/r/w/.sync_tmp_1000'', NDir), (''/r/w/.sync_tmp_1000/a'', NFile ''abc'' 0 0 0)]"
    by code_simp
  moreover have "remotePath ex_slash_fails = ''/r/w/''" by (simp add: ex_slash_fails_def New_def)
  moreover have "subtree ''/r/w'' (remote ex_slash_fails)
       = [(''/r/w'', NDir), (''/r/w/old'', NFile ''x'' 420 0 0)]"
    by code_simp
  ultimately show ?thesis using b c by (cases "fullSync ex_env1 ex_slash_fails") simp
qed

subsection \<open>Rollback after a failed swap\<close>

text \<open>
  C4. When the rename of the staging directory to the target fails and \<open>Stat\<close> finds the
  backup, \<open>fullSync\<close> renames the backup back to the target. If that succeeds the call
  fails with "sync failed, restored from backup: " and the swap error; if it fails too the
  call fails with "sync failed and restore failed: ", the swap error, ", restore error: "
  and the restore error. The deferred removal of the staging directory follows.
\<close>

theorem fullSync_swap_failure:
  assumes "fullSync_stage env s = Inr (files, temp, s1)"
      and "uploadFiles env files temp s1 = (None, s2)"
      and "fullSync_mkbackup env s2 = Inr (backupPath, s3)"
      and "client s (Rename temp (remotePath s)) (remote s3) = (Some err, r1)"
      and "client s (Stat backupPath) r1 = (None, r2)"
      and "client s (Rename backupPath (remotePath s)) r2 = (restore, r3)"
  shows "fst (fullSync env s) =
           Some (case restore of
                   None \<Rightarrow> ''sync failed, restored from backup: '' @ err
                 | Some restoreErr \<Rightarrow> ''sync failed and restore failed: '' @ err
                                      @ '', restore error: '' @ restoreErr)
       \<and> (\<exists>x. new_trace s3 (snd (fullSync env s))
               = [Called (Rename temp (remotePath s)) (Some err),
                  Called (Stat backupPath) None,
                  Called (Rename backupPath (remotePath s)) restore,
                  Called (RemoveDirectory temp) x])"
proof -
  have c2: "client s2 = client s" "remotePath s2 = remotePath s"
    using uploadFiles_config[of env files temp s1] assms(2)
          fullSync_stage_client[OF assms(1)] fullSync_stage_Inr(4)[OF assms(1)] by simp_all
  have c3: "client s3 = client s" "remotePath s3 = remotePath s"
    using fullSync_mkbackup_Inr(1,2)[OF assms(3)] c2 by simp_all
  define res where "res = Some (case restore of
                   None \<Rightarrow> ''sync failed, restored from backup: '' @ err
                 | Some restoreErr \<Rightarrow> ''sync failed and restore failed: '' @ err
                                      @ '', restore error: '' @ restoreErr)"
  define s4 where "s4 = (logf Info ''Renaming %s to %s'' [S temp, S (remotePath s3)] s3)
     \<lparr>remote := r3,
       trace := trace s3 @ [Called (Rename temp (remotePath s)) (Some err),
                  Called (Stat backupPath) None,
                  Called (Rename backupPath (remotePath s)) restore]\<rparr>"
  have sw: "fullSync_swap temp backupPath s3 = (res, s4)"
    using assms(4,5,6) c3
    by (cases restore) (simp_all add: fullSync_swap_def call_def logf_def Let_def res_def s4_def)
  have up: "fullSync_upload env files temp s1 = (res, s4)"
    using assms(2,3) sw by (simp add: fullSync_upload_def)
  have fs: "fullSync env s = fullSync_deferred temp (res, s4)"
    using assms(1) up by (simp add: fullSync_def)
  have 1: "fst (fullSync env s) = res" unfolding fs by (simp add: fullSync_deferred_fst)
  from fullSync_deferred_trace[of temp "(res, s4)"] obtain x where
    "trace (snd (fullSync env s)) = trace s4 @ [Called (RemoveDirectory temp) x]"
    unfolding fs by auto
  then have "trace (snd (fullSync env s)) = trace s3 @ [Called (Rename temp (remotePath s)) (Some err),
                  Called (Stat backupPath) None,
                  Called (Rename backupPath (remotePath s)) restore,
                  Called (RemoveDirectory temp) x]"
    by (simp add: s4_def)
  then have "new_trace s3 (snd (fullSync env s)) = [Called (Rename temp (remotePath s)) (Some err),
                  Called (Stat backupPath) None,
                  Called (Rename backupPath (remotePath s)) restore,
                  Called (RemoveDirectory temp) x]"
    by (rule new_trace_eq)
  with 1 show ?thesis unfolding res_def by blast
qed

theorem fullSync_swap_failure_witness:
  "fullSync_stage ex_env1 ex_restore_fails
     = Inr ([ex_a], ''/r/.sync_tmp_1000'', staged ex_env1 ex_restore_fails)
   \<and> fst (uploadFiles ex_env1 [ex_a] ''/r/.sync_tmp_1000'' (staged ex_env1 ex_restore_fails)) = None
   \<and> fst (fullSync ex_env1 ex_restore_fails)
       = Some ''sync failed and restore failed: swap refused, restore error: restore refused''"
proof -
  define S1 where "S1 = staged ex_env1 ex_restore_fails"
  define S2 where "S2 = snd (uploadFiles ex_env1 [ex_a] ''/r/.sync_tmp_1000'' S1)"
  define S3 where "S3 = backed_up ex_env1 S2"
  define R where "R = \<lparr>nodes = [(''/r/w.bak_1002'', NDir), (''/r/w.bak_1002/old'', NFile ''x'' 420 0 0),
                                 (''/r/.sync_tmp_1000'', NDir),
                                 (''/r/.sync_tmp_1000/a'', NFile ''abcde'' 420 1001 7)],
                        faults = [(Rename ''/r/.sync_tmp_1000'' ''/r/w'', ''swap refused''),
                                  (Rename ''/r/w.bak_1002'' ''/r/w'', ''restore refused'')]\<rparr>"
  have "case fullSync_stage ex_env1 ex_restore_fails of Inl a \<Rightarrow> False
        | Inr (fs, t, s1) \<Rightarrow> fs = [ex_a] \<and> t = ''/r/.sync_tmp_1000''"
    by code_simp
  then have h1: "fullSync_stage ex_env1 ex_restore_fails = Inr ([ex_a], ''/r/.sync_tmp_1000'', S1)"
    unfolding S1_def staged_def by (rule stage_projr)
  have u: "fst (uploadFiles ex_env1 [ex_a] ''/r/.sync_tmp_1000'' S1) = None"
    unfolding S1_def by code_simp
  then have h2: "uploadFiles ex_env1 [ex_a] ''/r/.sync_tmp_1000'' S1 = (None, S2)"
    unfolding S2_def by (metis prod.collapse)
  have "case fullSync_mkbackup ex_env1 S2 of Inl a \<Rightarrow> False
        | Inr (b, s3) \<Rightarrow> b = ''/r/w.bak_1002'' \<and> remote s3 = R"
    unfolding S2_def S1_def R_def by code_simp
  then have "fullSync_mkbackup ex_env1 S2 = Inr (''/r/w.bak_1002'', S3) \<and> remote S3 = R"
    unfolding S3_def backed_up_def by (rule backup_projr)
  then have h3: "fullSync_mkbackup ex_env1 S2 = Inr (''/r/w.bak_1002'', S3)" and r3: "remote S3 = R"
    by simp_all
  have cl: "client ex_restore_fails = mem_client" "remotePath ex_restore_fails = ''/r/w''"
    by (simp_all add: ex_restore_fails_def New_def ex_cfg_def)
  have m4: "mem_client (Rename ''/r/.sync_tmp_1000'' ''/r/w'') R = (Some ''swap refused'', R)"
    unfolding R_def by code_simp
  have m5: "mem_client (Stat ''/r/w.bak_1002'') R = (None, R)"
    unfolding R_def by code_simp
  have m6: "mem_client (Rename ''/r/w.bak_1002'' ''/r/w'') R = (Some ''restore refused'', R)"
    unfolding R_def by code_simp
  have h4: "client ex_restore_fails (Rename ''/r/.sync_tmp_1000'' (remotePath ex_restore_fails)) (remote S3)
            = (Some ''swap refused'', R)" using m4 by (simp add: cl r3)
  have h5: "client ex_restore_fails (Stat ''/r/w.bak_1002'') R = (None, R)" using m5 by (simp add: cl)
  have h6: "client ex_restore_fails (Rename ''/r/w.bak_1002'' (remotePath ex_restore_fails)) R
            = (Some ''restore refused'', R)" using m6 by (simp add: cl)
  from fullSync_swap_failure[OF h1 h2 h3 h4 h5 h6] h1 u
  show ?thesis by (simp add: S1_def)
qed

subsection \<open>Incremental mode only adds\<close>

text \<open>
  C5. Every call that \<open>incrementalSync\<close> makes on the server is either \<open>MkdirAll\<close> of the
  target path or one of the calls of the pool on the local entries: \<open>MkdirAll\<close> of a
  directory entry's remote path or of the parent of a file entry's remote path, and
  \<open>Create\<close>, \<open>Write\<close>, \<open>Close\<close>, \<open>Chmod\<close>, \<open>Chtimes\<close> on a file entry's remote path. It
  never calls \<open>Rename\<close> or \<open>RemoveDirectory\<close> (nor \<open>Stat\<close>): no remote entry is deleted,
  renamed or removed, and no path outside those of the local tree is named.
\<close>

theorem incrementalSync_only_adds:
  "\<forall>ev \<in> set (new_trace s (snd (incrementalSync env s))).
      incr_event env (remotePath s) (local_entries env s) ev
      \<and> \<not> is_rename ev \<and> \<not> is_remove ev \<and> \<not> is_stat ev"
proof -
  from incrementalSync_trace[of env s] obtain evs where
    e: "trace (snd (incrementalSync env s)) = trace s @ evs"
       "\<forall>ev \<in> set evs. incr_event env (remotePath s) (local_entries env s) ev" by blast
  have "new_trace s (snd (incrementalSync env s)) = evs" using e(1) by (rule new_trace_eq)
  then show ?thesis
    using e(2) pool_event_quiet is_mkdir_of_quiet unfolding incr_event_def by blast
qed

theorem incrementalSync_only_adds_witness:
  "list_all (incr_event ex_env1 ''/r/w'' [ex_a])
     (new_trace ex_identical (snd (incrementalSync ex_env1 ex_identical)))
   \<and> filter (\<lambda>ev. is_rename ev \<or> is_remove ev \<or> is_stat ev)
        (new_trace ex_identical (snd (incrementalSync ex_env1 ex_identical))) = []
   \<and> length (new_trace ex_identical (snd (incrementalSync ex_env1 ex_identical))) = 12
   \<and> map_of (nodes (remote (snd (incrementalSync ex_env1 ex_identical)))) ''/r/w/old''
       = Some (NFile ''x'' 420 0 0)"
proof -
  have l: "local_entries ex_env1 ex_identical = [ex_a]" by code_simp
  have p: "remotePath ex_identical = ''/r/w''"
    by (simp add: ex_identical_def New_def ex_cfg_def)
  have r: "remote ex_identical = \<lparr>nodes = [(''/r/w'', NDir), (''/r/w/old'', NFile ''x'' 420 0 0),
                 (''/r/w/a'', NFile ''abcde'' 420 1000 7)], faults = []\<rparr>"
    by (simp add: ex_identical_def New_def)
  obtain x s' where e: "incrementalSync ex_env1 ex_identical = (x, s')" by force
  from ex_identical_run e have
    "length (new_trace ex_identical s') = 12" "remote s' = remote ex_identical" by simp_all
  with incrementalSync_only_adds[of ex_identical ex_env1] l p r e
  show ?thesis by (simp add: list_all_iff filter_empty_conv)
qed

subsection \<open>Errors are collected, the other entries go on\<close>

text \<open>
  C6. Whatever fails, and for every order of the workers' steps, a run of the pool ends
  with all workers returned. With at least one worker the queue is empty then and no
  entry has been skipped, whatever failed before it was taken: for every directory entry
  \<open>MkdirAll\<close> of its remote path has been called; every file entry has been opened, and
  \<open>Create\<close> of its remote path has been called unless opening it or making its parent
  directory failed. In numbers: every local path has been opened as often as it is a
  file entry; for every remote path, \<open>MkdirAll\<close> has been called at least as often as it
  is a directory entry (and logged exactly as often), and in total once for each
  directory entry and once for each file that was opened; \<open>Create\<close> has been called once
  after each successful \<open>MkdirAll\<close> that was not for a directory entry; and every file
  entry has come to its \<open>Chmod\<close> or sent one error.
  Every error in the collection is one of a directory entry or one of a file entry. What
  is already in the collection has no influence on the run: started with any errors
  \<open>es\<close> in the channel, the workers take the same steps and leave the same state, with
  \<open>es\<close> before their own errors. Every error sent has its own failed call and every
  failed call is followed by an error (at most two failed calls for one error).
  \<open>uploadFiles\<close> returns \<open>nil\<close> exactly when the error channel is empty after all
  workers have returned.
\<close>

theorem uploadFiles_collects_errors:
  "(\<forall>w \<in> set (ws (run_pool env base (init_pool s files))). w = WExited)
   \<and> (0 < workers s \<longrightarrow>
        jobs (run_pool env base (init_pool s files)) = []
        \<and> (\<forall>f \<in> set files.
              if IsDir f
              then 1 \<le> length (filter (is_mkdir_of (fp_Join env base (RelPath f)))
                              (new_trace s (snd (uploadFiles env files base s))))
              else 1 \<le> length (filter (opens (Path f)) (new_trace s (snd (uploadFiles env files base s))))
                 \<and> 1 \<le> length (filter (is_create_of (fp_Join env base (RelPath f)))
                                (new_trace s (snd (uploadFiles env files base s))))
                        + length (filter (early_fails_of env base f)
                                (new_trace s (snd (uploadFiles env files base s)))))
        \<and> (\<forall>x. length (filter (opens x) (new_trace s (snd (uploadFiles env files base s))))
                = length (filter (\<lambda>f. \<not> IsDir f \<and> Path f = x) files))
        \<and> (\<forall>p. length (filter (announces p) (new_logs s (snd (uploadFiles env files base s))))
                = length (filter (\<lambda>f. IsDir f \<and> fp_Join env base (RelPath f) = p) files))
        \<and> (\<forall>p. length (filter (\<lambda>f. IsDir f \<and> fp_Join env base (RelPath f) = p) files)
                \<le> length (filter (is_mkdir_of p) (new_trace s (snd (uploadFiles env files base s)))))
        \<and> length (filter is_mkdir (new_trace s (snd (uploadFiles env files base s))))
            = length (filter IsDir files)
              + length (filter ok_open (new_trace s (snd (uploadFiles env files base s))))
        \<and> length (filter is_create (new_trace s (snd (uploadFiles env files base s))))
              + length (filter IsDir files)
            = length (filter ok_mkdir (new_trace s (snd (uploadFiles env files base s))))
              + length (filter is_mkdir_err (errors (run_pool env base (init_pool s files))))
        \<and> length (filter is_chmod (new_trace s (snd (uploadFiles env files base s))))
              + length (filter is_upload_err (errors (run_pool env base (init_pool s files))))
            = length (filter (\<lambda>f. \<not> IsDir f) files))
   \<and> length (errors (run_pool env base (init_pool s files)))
       = length (filter is_mkdir_err (errors (run_pool env base (init_pool s files))))
         + length (filter is_upload_err (errors (run_pool env base (init_pool s files))))
   \<and> (\<forall>es. run_pool env base ((init_pool s files)\<lparr>errors := es\<rparr>)
            = (run_pool env base (init_pool s files))
                \<lparr>errors := es @ errors (run_pool env base (init_pool s files))\<rparr>)
   \<and> length (errors (run_pool env base (init_pool s files)))
        \<le> length (filter transfer_failure (new_trace s (snd (uploadFiles env files base s))))
   \<and> length (filter transfer_failure (new_trace s (snd (uploadFiles env files base s))))
        \<le> 2 * length (errors (run_pool env base (init_pool s files)))
   \<and> (fst (uploadFiles env files base s) = None
        \<longleftrightarrow> errors (run_pool env base (init_pool s files)) = [])"
proof -
  let ?p = "run_pool env base (init_pool s files)"
  have 1: "\<forall>w \<in> set (ws ?p). w = WExited" by (rule run_pool_done)
  have e: "0 < workers s \<longrightarrow>
        (\<forall>f \<in> set files.
              if IsDir f
              then 1 \<le> length (filter (is_mkdir_of (fp_Join env base (RelPath f))) (new_trace s (sy ?p)))
              else 1 \<le> length (filter (opens (Path f)) (new_trace s (sy ?p)))
                 \<and> 1 \<le> length (filter (is_create_of (fp_Join env base (RelPath f))) (new_trace s (sy ?p)))
                        + length (filter (early_fails_of env base f) (new_trace s (sy ?p))))"
  proof (intro impI ballI)
    fix f
    assume w: "0 < workers s" and f: "f \<in> set files"
    show "if IsDir f
          then 1 \<le> length (filter (is_mkdir_of (fp_Join env base (RelPath f))) (new_trace s (sy ?p)))
          else 1 \<le> length (filter (opens (Path f)) (new_trace s (sy ?p)))
             \<and> 1 \<le> length (filter (is_create_of (fp_Join env base (RelPath f))) (new_trace s (sy ?p)))
                    + length (filter (early_fails_of env base f) (new_trace s (sy ?p)))"
    proof (cases "IsDir f")
      case True
      with dir_entry_self[OF f True, of env base]
           run_pool_dir_mkdirs[OF w, of env base "fp_Join env base (RelPath f)" files]
      show ?thesis by simp
    next
      case False
      with file_entry_self[OF f False] run_pool_opens[OF w, of "Path f" env base files]
           same_paths_self[OF f False, of env base] run_pool_entry_create[OF w, of env base f files]
      show ?thesis by simp
    qed
  qed
  have 2: "0 < workers s \<longrightarrow>
        jobs ?p = []
        \<and> (\<forall>x. length (filter (opens x) (new_trace s (sy ?p)))
                = length (filter (\<lambda>f. \<not> IsDir f \<and> Path f = x) files))
        \<and> (\<forall>p. length (filter (announces p) (new_logs s (sy ?p)))
                = length (filter (\<lambda>f. IsDir f \<and> fp_Join env base (RelPath f) = p) files))
        \<and> (\<forall>p. length (filter (\<lambda>f. IsDir f \<and> fp_Join env base (RelPath f) = p) files)
                \<le> length (filter (is_mkdir_of p) (new_trace s (sy ?p))))
        \<and> length (filter is_mkdir (new_trace s (sy ?p)))
            = length (filter IsDir files) + length (filter ok_open (new_trace s (sy ?p)))
        \<and> length (filter is_create (new_trace s (sy ?p))) + length (filter IsDir files)
            = length (filter ok_mkdir (new_trace s (sy ?p))) + length (filter is_mkdir_err (errors ?p))
        \<and> length (filter is_chmod (new_trace s (sy ?p))) + length (filter is_upload_err (errors ?p))
            = length (filter (\<lambda>f. \<not> IsDir f) files)"
    using run_pool_jobs_empty[of s env base files]
          run_pool_opens[of s _ env base files] run_pool_mkdirs[of s _ env base files]
          run_pool_dir_mkdirs[of s env base _ files] run_pool_mkdir_total[of s env base files]
          run_pool_creates[of s env base files] run_pool_file_outcome[of s env base files]
    by blast
  have 3: "length (errors ?p)
       = length (filter is_mkdir_err (errors ?p)) + length (filter is_upload_err (errors ?p))"
    by (rule run_pool_error_kinds)
  have 4: "\<forall>es. run_pool env base ((init_pool s files)\<lparr>errors := es\<rparr>)
            = ?p\<lparr>errors := es @ errors ?p\<rparr>"
  proof
    fix es
    have "(init_pool s files)\<lparr>errors := es\<rparr>
          = (init_pool s files)\<lparr>errors := es @ errors (init_pool s files)\<rparr>"
      by (simp add: init_pool_def)
    then show "run_pool env base ((init_pool s files)\<lparr>errors := es\<rparr>) = ?p\<lparr>errors := es @ errors ?p\<rparr>"
      using run_pool_errors_indep[where q = "init_pool s files" and es = es, of env base] by simp
  qed
  have 5: "length (errors ?p) \<le> length (filter transfer_failure (new_trace s (sy ?p)))"
    using run_pool_errors_le[of env base s files] by simp
  have 6: "length (filter transfer_failure (new_trace s (sy ?p))) \<le> 2 * length (errors ?p)"
    using run_pool_errors_ge[of s env base files] by simp
  have 7: "fst (uploadFiles env files base s) = None \<longleftrightarrow> errors ?p = []"
    by (rule uploadFiles_fst)
  show ?thesis unfolding uploadFiles_snd using 1 e 2 3 4 5 6 7 by blast
qed

theorem uploadFiles_collects_errors_witness:
  "0 < workers ex_create_fails
   \<and> new_trace ex_create_fails (snd (uploadFiles ex_env_seq [ex_a, ex_d, ex_b] ''/r/w'' ex_create_fails))
       = [Opened ''/l/a'' None, Called (MkdirAll ''/r/w'') None,
          Called (Create ''/r/w/a'') (Some ''injected''),
          Called (MkdirAll ''/r/w/d'') None, Opened ''/l/d/b'' None,
          Called (MkdirAll ''/r/w/d'') None, Called (Create ''/r/w/d/b'') None,
          ReadChunk ''/l/d/b'' 2 REOF, Called (Write ''/r/w/d/b'' ''hi'') None,
          Called (Chmod ''/r/w/d/b'' 420) None, Called (Chtimes ''/r/w/d/b'' 1000 9) None,
          Called (Close ''/r/w/d/b'') None]
   \<and> errors (run_pool ex_env_seq ''/r/w'' (init_pool ex_create_fails [ex_a, ex_d, ex_b]))
       = [''failed to upload file a: failed to create remote file: injected'']
   \<and> jobs (run_pool ex_env_seq ''/r/w'' (init_pool ex_create_fails [ex_a, ex_d, ex_b])) = []
   \<and> length (filter is_mkdir (new_trace ex_create_fails
        (snd (uploadFiles ex_env_seq [ex_a, ex_d, ex_b] ''/r/w'' ex_create_fails)))) = 3
   \<and> fst (uploadFiles ex_env_seq [ex_a, ex_d, ex_b] ''/r/w'' ex_create_fails)
       = Some ''worker error: failed to upload file a: failed to create remote file: injected''"
proof -
  have w: "0 < workers ex_create_fails"
    by (simp add: ex_create_fails_def New_def ex_cfg_def)
  have d: "length (filter IsDir [ex_a, ex_d, ex_b]) = 1"
    by (simp add: ex_a_def ex_d_def ex_b_def)
  have r: "case uploadFiles ex_env_seq [ex_a, ex_d, ex_b] ''/r/w'' ex_create_fails of
       (r, s') \<Rightarrow>
         r = Some ''worker error: failed to upload file a: failed to create remote file: injected''
         \<and> new_trace ex_create_fails s'
           = [Opened ''/l/a'' None, Called (MkdirAll ''/r/w'') None,
              Called (Create ''/r/w/a'') (Some ''injected''),
              Called (MkdirAll ''/r/w/d'') None, Opened ''/l/d/b'' None,
              Called (MkdirAll ''/r/w/d'') None, Called (Create ''/r/w/d/b'') None,
              ReadChunk ''/l/d/b'' 2 REOF, Called (Write ''/r/w/d/b'' ''hi'') None,
              Called (Chmod ''/r/w/d/b'' 420) None, Called (Chtimes ''/r/w/d/b'' 1000 9) None,
              Called (Close ''/r/w/d/b'') None]"
    by code_simp
  have e: "errors (run_pool ex_env_seq ''/r/w'' (init_pool ex_create_fails [ex_a, ex_d, ex_b]))
       = [''failed to upload file a: failed to create remote file: injected'']"
    by code_simp
  obtain x s' where u: "uploadFiles ex_env_seq [ex_a, ex_d, ex_b] ''/r/w'' ex_create_fails = (x, s')"
    by force
  from uploadFiles_collects_errors[where env = ex_env_seq and base = "''/r/w''"
        and s = ex_create_fails and files = "[ex_a, ex_d, ex_b]"] w
  have "jobs (run_pool ex_env_seq ''/r/w'' (init_pool ex_create_fails [ex_a, ex_d, ex_b])) = []"
    and "length (filter is_mkdir (new_trace ex_create_fails s'))
         = length (filter IsDir [ex_a, ex_d, ex_b]) + length (filter ok_open (new_trace ex_create_fails s'))"
    unfolding u by simp_all
  with w d r e u show ?thesis by simp
qed

subsection \<open>Metadata failures are warnings\<close>

text \<open>
  C7. In a run of the pool, each failed \<open>Chmod\<close> or \<open>Chtimes\<close> is logged as one warning
  and these are the only warnings; the errors sent are at most the failed calls other
  than \<open>Chmod\<close> and \<open>Chtimes\<close>; and when no other call fails, \<open>uploadFiles\<close> returns
  \<open>nil\<close>: a metadata failure never makes a transfer or the call fail.
\<close>

theorem metadata_failures_are_warnings:
  "length (filter is_warning (new_logs s (snd (uploadFiles env files base s))))
     = length (filter meta_failure (new_trace s (snd (uploadFiles env files base s))))
   \<and> length (errors (run_pool env base (init_pool s files)))
       \<le> length (filter (\<lambda>ev. failed ev \<and> \<not> meta_failure ev)
                   (new_trace s (snd (uploadFiles env files base s))))
   \<and> ((\<forall>ev \<in> set (new_trace s (snd (uploadFiles env files base s))). failed ev \<longrightarrow> meta_failure ev)
        \<longrightarrow> fst (uploadFiles env files base s) = None)"
proof -
  let ?new = "new_trace s (snd (uploadFiles env files base s))"
  let ?p = "run_pool env base (init_pool s files)"
  have 1: "length (filter is_warning (new_logs s (snd (uploadFiles env files base s))))
     = length (filter meta_failure ?new)"
    unfolding uploadFiles_snd by (rule run_pool_warnings)
  have le: "length (errors ?p) \<le> length (filter transfer_failure ?new)"
    using run_pool_errors_le[of env base s files] unfolding uploadFiles_snd by simp
  have "length (filter transfer_failure ?new)
        \<le> length (filter (\<lambda>ev. failed ev \<and> \<not> meta_failure ev) ?new)"
    by (rule filter_length_mono) (use transfer_failure_failed in blast)
  with le have 2: "length (errors ?p) \<le> length (filter (\<lambda>ev. failed ev \<and> \<not> meta_failure ev) ?new)"
    by simp
  have 3: "(\<forall>ev \<in> set ?new. failed ev \<longrightarrow> meta_failure ev) \<longrightarrow> fst (uploadFiles env files base s) = None"
  proof
    assume "\<forall>ev \<in> set ?new. failed ev \<longrightarrow> meta_failure ev"
    then have "filter (\<lambda>ev. failed ev \<and> \<not> meta_failure ev) ?new = []"
      by (auto simp: filter_empty_conv)
    with 2 have "errors ?p = []" by simp
    then show "fst (uploadFiles env files base s) = None" by (simp add: uploadFiles_fst)
  qed
  show ?thesis using 1 2 3 by blast
qed

theorem metadata_failures_are_warnings_witness:
  "filter (\<lambda>ev. failed ev \<and> \<not> meta_failure ev)
     (new_trace ex_meta_fails (snd (uploadFiles ex_env3 [ex_a] ''/r/w'' ex_meta_fails))) = []
   \<and> length (filter meta_failure
        (new_trace ex_meta_fails (snd (uploadFiles ex_env3 [ex_a] ''/r/w'' ex_meta_fails)))) = 2
   \<and> length (filter is_warning
        (new_logs ex_meta_fails (snd (uploadFiles ex_env3 [ex_a] ''/r/w'' ex_meta_fails)))) = 2
   \<and> fst (uploadFiles ex_env3 [ex_a] ''/r/w'' ex_meta_fails) = None"
proof -
  have h: "let new = new_trace ex_meta_fails (snd (uploadFiles ex_env3 [ex_a] ''/r/w'' ex_meta_fails))
           in filter (\<lambda>ev. failed ev \<and> \<not> meta_failure ev) new = []
              \<and> length (filter meta_failure new) = 2"
    by code_simp
  from metadata_failures_are_warnings[where env = ex_env3 and base = "''/r/w''"
        and s = ex_meta_fails and files = "[ex_a]"] h
  show ?thesis by (simp add: Let_def filter_empty_conv)
qed

subsection \<open>The byte counter\<close>

text \<open>
  C8, as amended. As long as the counter cannot overflow \<open>int64\<close> (its value at the start
  plus the bytes of all local files stays below \<open>2^63\<close>): no step of any worker, in any
  order, decreases \<open>syncedSize\<close>; when the pool has ended, \<open>syncedSize\<close> is its value at
  the start plus the bytes of the chunk writes that succeeded; and when \<open>uploadFiles\<close>
  returns \<open>nil\<close> with at least one worker, that is the value at the start plus the bytes
  of all file entries, each once, which is the sum of their \<open>Size\<close> when every local file
  hands over as many bytes as its entry records.
\<close>

theorem counter_counts_written_bytes:
  assumes "- (2 ^ 63) \<le> syncedSize s"
      and "syncedSize s + (\<Sum>f\<leftarrow>files. local_bytes env f) < 2 ^ 63"
  shows "(\<forall>is i. syncedSize (sy (run_ticks env base is (init_pool s files)))
               \<le> syncedSize (sy (tick env base (run_ticks env base is (init_pool s files)) i)))
       \<and> syncedSize (snd (uploadFiles env files base s))
           = syncedSize s + written (new_trace s (snd (uploadFiles env files base s)))
       \<and> (0 < workers s \<and> fst (uploadFiles env files base s) = None \<longrightarrow>
             syncedSize (snd (uploadFiles env files base s))
             = syncedSize s + (\<Sum>f\<leftarrow>files. local_bytes env f))
       \<and> ((\<forall>f \<in> set files. \<not> IsDir f \<longrightarrow> local_bytes env f = Size f) \<longrightarrow>
             (\<Sum>f\<leftarrow>files. local_bytes env f) = (\<Sum>f\<leftarrow>filter (\<lambda>f. \<not> IsDir f) files. Size f))"
proof -
  have b: "syncedSize s + queued_bytes env files < 2 ^ 63"
    using assms(2) by (simp add: queued_bytes_def)
  have 1: "\<forall>is i. syncedSize (sy (run_ticks env base is (init_pool s files)))
               \<le> syncedSize (sy (tick env base (run_ticks env base is (init_pool s files)) i))"
    using counter_step_mono[OF assms(1) b] by blast
  have 2: "syncedSize (snd (uploadFiles env files base s))
           = syncedSize s + written (new_trace s (snd (uploadFiles env files base s)))"
    unfolding uploadFiles_snd by (rule counter_final_written[OF assms(1) b])
  have 3: "0 < workers s \<and> fst (uploadFiles env files base s) = None \<longrightarrow>
             syncedSize (snd (uploadFiles env files base s))
             = syncedSize s + (\<Sum>f\<leftarrow>files. local_bytes env f)"
    using counter_final_sum[OF assms(1) b, of base]
    unfolding uploadFiles_snd by (simp add: uploadFiles_fst queued_bytes_def)
  have 4: "(\<forall>f \<in> set files. \<not> IsDir f \<longrightarrow> local_bytes env f = Size f) \<longrightarrow>
             (\<Sum>f\<leftarrow>files. local_bytes env f) = (\<Sum>f\<leftarrow>filter (\<lambda>f. \<not> IsDir f) files. Size f)"
    using queued_bytes_sizes[of files env] by (simp add: queued_bytes_def)
  show ?thesis using 1 2 3 4 by blast
qed

theorem counter_counts_written_bytes_witness:
  "- (2 ^ 63) \<le> syncedSize (ex_plain 2)
   \<and> syncedSize (ex_plain 2) + (\<Sum>f\<leftarrow>[ex_a, ex_d, ex_b]. local_bytes ex_env3 f) < 2 ^ 63
   \<and> 0 < workers (ex_plain 2)
   \<and> fst (uploadFiles ex_env3 [ex_a, ex_d, ex_b] ''/r/w'' (ex_plain 2)) = None
   \<and> list_all (\<lambda>f. IsDir f \<or> local_bytes ex_env3 f = Size f) [ex_a, ex_d, ex_b]
   \<and> syncedSize (snd (uploadFiles ex_env3 [ex_a, ex_d, ex_b] ''/r/w'' (ex_plain 2))) = 7
   \<and> written (new_trace (ex_plain 2)
        (snd (uploadFiles ex_env3 [ex_a, ex_d, ex_b] ''/r/w'' (ex_plain 2)))) = 7"
proof -
  have s0: "syncedSize (ex_plain 2) = 0" "0 < workers (ex_plain 2)"
    by (simp_all add: ex_plain_def New_def ex_cfg_def)
  have lb: "local_bytes ex_env3 ex_a = 5" "local_bytes ex_env3 ex_d = 0" "local_bytes ex_env3 ex_b = 2"
    by code_simp+
  have sz: "Size ex_a = 5" "Size ex_b = 2" "IsDir ex_d" "\<not> IsDir ex_a" "\<not> IsDir ex_b"
    by (simp_all add: ex_a_def ex_b_def ex_d_def)
  have r: "fst (uploadFiles ex_env3 [ex_a, ex_d, ex_b] ''/r/w'' (ex_plain 2)) = None"
    by code_simp
  have h1: "- (2 ^ 63) \<le> syncedSize (ex_plain 2)" using s0 by simp
  have h2: "syncedSize (ex_plain 2) + (\<Sum>f\<leftarrow>[ex_a, ex_d, ex_b]. local_bytes ex_env3 f) < 2 ^ 63"
    using s0 lb by simp
  from counter_counts_written_bytes[OF h1 h2, where base = "''/r/w''"] s0 lb sz r h1 h2
  show ?thesis by simp
qed

theorem counter_not_uploaded_sizes_counterexample:
  "fst (uploadFiles ex_env3 [ex_a] ''/r/w'' ex_write_fails)
     = Some ''worker error: failed to upload file a: failed to write to remote file: injected''
   \<and> syncedSize ex_write_fails = 0
   \<and> syncedSize (snd (uploadFiles ex_env3 [ex_a] ''/r/w'' ex_write_fails)) = 3
   \<and> uploaded_total (new_logs ex_write_fails
        (snd (uploadFiles ex_env3 [ex_a] ''/r/w'' ex_write_fails))) = 0
   \<and> Size ex_a = 5"
  by code_simp

subsection \<open>No workers\<close>

text \<open>
  C9. When the configured worker count is zero or negative, \<open>uploadFiles\<close> starts no
  worker, makes no call, changes nothing and returns \<open>nil\<close>; \<open>fullSync\<close> then goes
  straight on to the backup and the swap, with the staging directory as it was created.
\<close>

theorem uploadFiles_no_workers:
  assumes "workers s \<le> 0"
  shows "uploadFiles env files remoteBasePath s = (None, s)
       \<and> fullSync_upload env files tempRemotePath s =
           (case fullSync_mkbackup env s of
              Inl ret \<Rightarrow> ret
            | Inr (backupPath, s2) \<Rightarrow> fullSync_swap tempRemotePath backupPath s2)"
proof -
  have "ws (init_pool s files) = []" using assms by (simp add: init_pool_def)
  then have "\<And>base. run_pool env base (init_pool s files) = init_pool s files"
    by (rule run_pool_no_workers)
  then have u: "\<And>base. uploadFiles env files base s = (None, s)"
    by (simp add: uploadFiles_def init_pool_def)
  then show ?thesis by (simp add: fullSync_upload_def)
qed

theorem uploadFiles_no_workers_witness:
  "workers (ex_syncer ''full'' 0 ex_remote) \<le> 0
   \<and> uploadFiles ex_env1 [ex_a] ''/r/.sync_tmp_1000'' (ex_syncer ''full'' 0 ex_remote)
       = (None, ex_syncer ''full'' 0 ex_remote)
   \<and> fst (fullSync ex_env1 (ex_syncer ''full'' 0 ex_remote)) = None
   \<and> nodes (remote (snd (fullSync ex_env1 (ex_syncer ''full'' 0 ex_remote)))) = [(''/r/w'', NDir)]"
proof -
  have h: "workers (ex_syncer ''full'' 0 ex_remote) \<le> 0"
    by (simp add: ex_syncer_def New_def)
  have e: "case fullSync ex_env1 (ex_syncer ''full'' 0 ex_remote) of
             (r, s') \<Rightarrow> r = None \<and> nodes (remote s') = [(''/r/w'', NDir)]"
    by code_simp
  obtain x s' where f: "fullSync ex_env1 (ex_syncer ''full'' 0 ex_remote) = (x, s')" by force
  from uploadFiles_no_workers[OF h, of ex_env1 "[ex_a]" "''/r/.sync_tmp_1000''"] h e f
  show ?thesis by simp
qed

subsection \<open>Mode 0644, access time now, modification time of the local file\<close>

text \<open>
  C10. With at least one worker, every file entry for which no call of \<open>uploadFile\<close>
  fails gets \<open>Chmod\<close> and \<open>Chtimes\<close> on its remote path, whatever happens to the other
  entries and in whatever order the workers take their steps. Every \<open>Chmod\<close> of a pool
  run asks for mode 0644 (420) on the remote path of a file entry; every \<open>Chtimes\<close> is on
  the remote path of a file entry, with that entry's \<open>ModTime\<close> as modification time and
  a reading of the clock as access time: the readings that the workers take during the
  run are the access times they pass, each in one call. A worker reads the clock after
  its \<open>Chmod\<close> and just before its \<open>Chtimes\<close>: at every moment of the run, whatever the
  order of the steps, the \<open>Chtimes\<close> calls made are not more than the readings taken, and
  these not more than the \<open>Chmod\<close> calls made. In numbers: the file entries with the
  local and the remote path of \<open>f\<close> are not more than the \<open>Chmod\<close> calls on that remote
  path and the failed calls for \<open>f\<close>; the \<open>Chmod\<close> calls and the errors of file entries
  together are as many as the file entries; on every remote path there are at most as
  many \<open>Chmod\<close> calls as file entries with that path, and not fewer than those less the
  errors of file entries; there are as many \<open>Chtimes\<close> calls as \<open>Chmod\<close> calls, on every
  path (one "Uploaded" log line each) and in total. So when \<open>uploadFiles\<close> returns
  \<open>nil\<close>, each remote path gets one \<open>Chmod\<close> and one \<open>Chtimes\<close> for each file entry with
  that path. The local file's permissions are never read: \<open>FileInfo\<close> has no field for
  them.
\<close>

theorem uploadFile_mode_and_times:
  "(0 < workers s \<longrightarrow>
      (\<forall>f \<in> set files.
          \<not> IsDir f \<and> filter (fails_of env base f) (new_trace s (snd (uploadFiles env files base s))) = []
          \<longrightarrow> 1 \<le> length (filter (chmods (fp_Join env base (RelPath f)))
                          (new_trace s (snd (uploadFiles env files base s))))
              \<and> 1 \<le> length (filter (chtimes (fp_Join env base (RelPath f)))
                          (new_trace s (snd (uploadFiles env files base s))))))
   \<and> (\<forall>ev \<in> set (new_trace s (snd (uploadFiles env files base s))). meta_call env base files ev)
   \<and> perm_0644 = 420
   \<and> (\<forall>t. length (filter (uses_atime t) (new_trace s (snd (uploadFiles env files base s))))
           = length (filter (\<lambda>k. time_Now env k = t)
               [clock_reads s..<clock_reads (snd (uploadFiles env files base s))]))
   \<and> (\<forall>is. clock_reads s
               + length (filter is_chtimes (new_trace s (sy (run_ticks env base is (init_pool s files)))))
             \<le> clock_reads (sy (run_ticks env base is (init_pool s files)))
           \<and> clock_reads (sy (run_ticks env base is (init_pool s files)))
             \<le> clock_reads s
               + length (filter is_chmod (new_trace s (sy (run_ticks env base is (init_pool s files))))))
   \<and> (\<forall>p. length (filter (chmods p) (new_trace s (snd (uploadFiles env files base s))))
           = length (filter (reports_upload env base p) (new_logs s (snd (uploadFiles env files base s))))
         \<and> length (filter (chtimes p) (new_trace s (snd (uploadFiles env files base s))))
           = length (filter (reports_upload env base p) (new_logs s (snd (uploadFiles env files base s)))))
   \<and> length (filter is_chtimes (new_trace s (snd (uploadFiles env files base s))))
       = length (filter is_chmod (new_trace s (snd (uploadFiles env files base s))))
   \<and> (\<forall>p. length (filter (chmods p) (new_trace s (snd (uploadFiles env files base s))))
           \<le> length (filter (\<lambda>f. \<not> IsDir f \<and> fp_Join env base (RelPath f) = p) files))
   \<and> (0 < workers s \<longrightarrow>
        (\<forall>f. length (filter (same_paths env base f) files)
                \<le> length (filter (chmods (fp_Join env base (RelPath f)))
                             (new_trace s (snd (uploadFiles env files base s))))
                  + length (filter (fails_of env base f) (new_trace s (snd (uploadFiles env files base s)))))
        \<and> length (filter is_chmod (new_trace s (snd (uploadFiles env files base s))))
          + length (filter is_upload_err (errors (run_pool env base (init_pool s files))))
          = length (filter (\<lambda>f. \<not> IsDir f) files)
        \<and> (\<forall>p. length (filter (\<lambda>f. \<not> IsDir f \<and> fp_Join env base (RelPath f) = p) files)
                \<le> length (filter (chmods p) (new_trace s (snd (uploadFiles env files base s))))
                  + length (filter is_upload_err (errors (run_pool env base (init_pool s files)))))
        \<and> (fst (uploadFiles env files base s) = None \<longrightarrow>
              (\<forall>p. length (filter (chmods p) (new_trace s (snd (uploadFiles env files base s))))
                      = length (filter (\<lambda>f. \<not> IsDir f \<and> fp_Join env base (RelPath f) = p) files)
                    \<and> length (filter (chtimes p) (new_trace s (snd (uploadFiles env files base s))))
                      = length (filter (\<lambda>f. \<not> IsDir f \<and> fp_Join env base (RelPath f) = p) files))))"
proof -
  let ?q = "run_pool env base (init_pool s files)"
  let ?new = "new_trace s (sy ?q)"
  let ?n = "\<lambda>p. length (filter (\<lambda>f. \<not> IsDir f \<and> fp_Join env base (RelPath f) = p) files)"
  let ?r = "\<lambda>f. fp_Join env base (RelPath f)"
  have ct: "\<And>p. length (filter (chmods p) ?new) = length (filter (chtimes p) ?new)"
    by (rule run_pool_chmods)
  have en: "0 < workers s \<Longrightarrow> length (filter (same_paths env base f) files)
                \<le> length (filter (chmods (?r f)) ?new) + length (filter (fails_of env base f) ?new)" for f
    by (rule run_pool_entry_meta)
  have 0: "0 < workers s \<longrightarrow>
      (\<forall>f \<in> set files. \<not> IsDir f \<and> filter (fails_of env base f) ?new = []
          \<longrightarrow> 1 \<le> length (filter (chmods (?r f)) ?new) \<and> 1 \<le> length (filter (chtimes (?r f)) ?new))"
  proof (intro impI ballI)
    fix f
    assume w: "0 < workers s" and f: "f \<in> set files"
       and ok: "\<not> IsDir f \<and> filter (fails_of env base f) ?new = []"
    from same_paths_self[OF f, of env base] ok en[OF w, of f]
    have "1 \<le> length (filter (chmods (?r f)) ?new)" by simp
    with ct[of "?r f"]
    show "1 \<le> length (filter (chmods (?r f)) ?new) \<and> 1 \<le> length (filter (chtimes (?r f)) ?new)"
      by simp
  qed
  have 1: "\<forall>ev \<in> set ?new. meta_call env base files ev"
    using run_pool_events[of s env base files] pool_event_meta_call[of env base files] by blast
  have 2: "perm_0644 = 420" by (simp add: perm_0644_def)
  have 3: "\<forall>t. length (filter (uses_atime t) ?new)
           = length (filter (\<lambda>k. time_Now env k = t) [clock_reads s..<clock_reads (sy ?q)])"
    using run_pool_readings[of _ s env base files] by blast
  have o: "\<forall>is. clock_reads s
               + length (filter is_chtimes (new_trace s (sy (run_ticks env base is (init_pool s files)))))
             \<le> clock_reads (sy (run_ticks env base is (init_pool s files)))
           \<and> clock_reads (sy (run_ticks env base is (init_pool s files)))
             \<le> clock_reads s
               + length (filter is_chmod (new_trace s (sy (run_ticks env base is (init_pool s files)))))"
    using run_ticks_clock_order[of s env base _ files] by blast
  have 4: "\<forall>p. length (filter (chmods p) ?new)
           = length (filter (reports_upload env base p) (new_logs s (sy ?q)))
         \<and> length (filter (chtimes p) ?new)
           = length (filter (reports_upload env base p) (new_logs s (sy ?q)))"
    using run_pool_uploaded[of env base _ s files] ct by simp
  have 5: "length (filter is_chtimes ?new) = length (filter is_chmod ?new)"
    by (rule run_pool_meta_total)
  have hi: "\<And>p. length (filter (chmods p) ?new) \<le> ?n p"
    by (rule run_pool_chmods_hi)
  have 7: "0 < workers s \<longrightarrow>
        (\<forall>f. length (filter (same_paths env base f) files)
                \<le> length (filter (chmods (?r f)) ?new) + length (filter (fails_of env base f) ?new))
        \<and> length (filter is_chmod ?new) + length (filter is_upload_err (errors ?q))
          = length (filter (\<lambda>f. \<not> IsDir f) files)
        \<and> (\<forall>p. ?n p \<le> length (filter (chmods p) ?new) + length (filter is_upload_err (errors ?q)))
        \<and> (fst (uploadFiles env files base s) = None \<longrightarrow>
              (\<forall>p. length (filter (chmods p) ?new) = ?n p \<and> length (filter (chtimes p) ?new) = ?n p))"
  proof
    assume w: "0 < workers s"
    have lo: "\<And>p. ?n p \<le> length (filter (chmods p) ?new) + length (filter is_upload_err (errors ?q))"
      by (rule run_pool_chmods_lo[OF w])
    have "fst (uploadFiles env files base s) = None \<longrightarrow>
              (\<forall>p. length (filter (chmods p) ?new) = ?n p \<and> length (filter (chtimes p) ?new) = ?n p)"
    proof
      assume "fst (uploadFiles env files base s) = None"
      then have e: "errors ?q = []" by (simp add: uploadFiles_fst)
      show "\<forall>p. length (filter (chmods p) ?new) = ?n p \<and> length (filter (chtimes p) ?new) = ?n p"
      proof
        fix p
        from lo[of p] hi[of p] e have "length (filter (chmods p) ?new) = ?n p" by simp
        with ct[of p] show "length (filter (chmods p) ?new) = ?n p \<and> length (filter (chtimes p) ?new) = ?n p"
          by simp
      qed
    qed
    with run_pool_file_outcome[OF w, of env base files] lo en[OF w]
    show "(\<forall>f. length (filter (same_paths env base f) files)
                \<le> length (filter (chmods (?r f)) ?new) + length (filter (fails_of env base f) ?new))
        \<and> length (filter is_chmod ?new) + length (filter is_upload_err (errors ?q))
          = length (filter (\<lambda>f. \<not> IsDir f) files)
        \<and> (\<forall>p. ?n p \<le> length (filter (chmods p) ?new) + length (filter is_upload_err (errors ?q)))
        \<and> (fst (uploadFiles env files base s) = None \<longrightarrow>
              (\<forall>p. length (filter (chmods p) ?new) = ?n p \<and> length (filter (chtimes p) ?new) = ?n p))"
      by blast
  qed
  show ?thesis unfolding uploadFiles_snd using 0 1 2 3 o 4 5 hi 7 by blast
qed

theorem uploadFile_mode_and_times_witness:
  "0 < workers (ex_plain 2)
   \<and> fst (uploadFiles ex_env_late [ex_a, ex_b] ''/r/w'' (ex_plain 2)) = None
   \<and> list_all (meta_call ex_env_late ''/r/w'' [ex_a, ex_b])
        (new_trace (ex_plain 2) (snd (uploadFiles ex_env_late [ex_a, ex_b] ''/r/w'' (ex_plain 2))))
   \<and> filter is_chmod (new_trace (ex_plain 2) (snd (uploadFiles ex_env_late [ex_a, ex_b] ''/r/w'' (ex_plain 2))))
       = [Called (Chmod ''/r/w/a'' 420) None, Called (Chmod ''/r/w/d/b'' 420) None]
   \<and> filter is_chtimes (new_trace (ex_plain 2) (snd (uploadFiles ex_env_late [ex_a, ex_b] ''/r/w'' (ex_plain 2))))
       = [Called (Chtimes ''/r/w/d/b'' 1001 9) None, Called (Chtimes ''/r/w/a'' 1000 7) None]
   \<and> length (filter (chtimes ''/r/w/a'')
        (new_trace (ex_plain 2) (snd (uploadFiles ex_env_late [ex_a, ex_b] ''/r/w'' (ex_plain 2))))) = 1
   \<and> map_of (nodes (remote (snd (uploadFiles ex_env_late [ex_a, ex_b] ''/r/w'' (ex_plain 2))))) ''/r/w/a''
       = Some (NFile ''abcde'' 420 1000 7)
   \<and> map_of (nodes (remote (snd (uploadFiles ex_env_late [ex_a, ex_b] ''/r/w'' (ex_plain 2))))) ''/r/w/d/b''
       = Some (NFile ''hi'' 420 1001 9)
   \<and> 0 < workers ex_create_fails
   \<and> ex_b \<in> set [ex_a, ex_d, ex_b] \<and> \<not> IsDir ex_b
   \<and> fst (uploadFiles ex_env_seq [ex_a, ex_d, ex_b] ''/r/w'' ex_create_fails)
       = Some ''worker error: failed to upload file a: failed to create remote file: injected''
   \<and> filter (fails_of ex_env_seq ''/r/w'' ex_b)
        (new_trace ex_create_fails (snd (uploadFiles ex_env_seq [ex_a, ex_d, ex_b] ''/r/w'' ex_create_fails))) = []
   \<and> 1 \<le> length (filter (chmods ''/r/w/d/b'')
        (new_trace ex_create_fails (snd (uploadFiles ex_env_seq [ex_a, ex_d, ex_b] ''/r/w'' ex_create_fails))))
   \<and> 1 \<le> length (filter (chtimes ''/r/w/d/b'')
        (new_trace ex_create_fails (snd (uploadFiles ex_env_seq [ex_a, ex_d, ex_b] ''/r/w'' ex_create_fails))))"
proof -
  have w: "0 < workers (ex_plain 2)" by (simp add: ex_plain_def New_def ex_cfg_def)
  have n: "length (filter (\<lambda>f. \<not> IsDir f \<and> fp_Join ex_env_late ''/r/w'' (RelPath f) = ''/r/w/a'')
                     [ex_a, ex_b]) = 1"
    by (simp add: ex_a_def ex_b_def ex_env_late_def ex_env_def)
  obtain r s' where u: "uploadFiles ex_env_late [ex_a, ex_b] ''/r/w'' (ex_plain 2) = (r, s')" by force
  have h: "case uploadFiles ex_env_late [ex_a, ex_b] ''/r/w'' (ex_plain 2) of
             (r, s') \<Rightarrow>
               r = None
               \<and> filter is_chmod (new_trace (ex_plain 2) s')
                   = [Called (Chmod ''/r/w/a'' 420) None, Called (Chmod ''/r/w/d/b'' 420) None]
               \<and> filter is_chtimes (new_trace (ex_plain 2) s')
                   = [Called (Chtimes ''/r/w/d/b'' 1001 9) None, Called (Chtimes ''/r/w/a'' 1000 7) None]
               \<and> map_of (nodes (remote s')) ''/r/w/a'' = Some (NFile ''abcde'' 420 1000 7)
               \<and> map_of (nodes (remote s')) ''/r/w/d/b'' = Some (NFile ''hi'' 420 1001 9)"
    by code_simp
  then have rn: "r = None" unfolding u by simp
  have f: "fst (uploadFiles ex_env_late [ex_a, ex_b] ''/r/w'' (ex_plain 2)) = None"
    using rn u by simp
  note t = uploadFile_mode_and_times[where env = ex_env_late and base = "''/r/w''"
        and s = "ex_plain 2" and files = "[ex_a, ex_b]"]
  from t w f have "\<forall>p. length (filter (chmods p)
                 (new_trace (ex_plain 2) (snd (uploadFiles ex_env_late [ex_a, ex_b] ''/r/w'' (ex_plain 2)))))
             = length (filter (\<lambda>f. \<not> IsDir f \<and> fp_Join ex_env_late ''/r/w'' (RelPath f) = p) [ex_a, ex_b])
           \<and> length (filter (chtimes p)
                 (new_trace (ex_plain 2) (snd (uploadFiles ex_env_late [ex_a, ex_b] ''/r/w'' (ex_plain 2)))))
             = length (filter (\<lambda>f. \<not> IsDir f \<and> fp_Join ex_env_late ''/r/w'' (RelPath f) = p) [ex_a, ex_b])"
    by blast
  then have "length (filter (chtimes ''/r/w/a'')
                 (new_trace (ex_plain 2) (snd (uploadFiles ex_env_late [ex_a, ex_b] ''/r/w'' (ex_plain 2)))))
      = length (filter (\<lambda>f. \<not> IsDir f \<and> fp_Join ex_env_late ''/r/w'' (RelPath f) = ''/r/w/a'')
                     [ex_a, ex_b])"
    by blast
  with n have c: "length (filter (chtimes ''/r/w/a'') (new_trace (ex_plain 2) s')) = 1"
    by (simp add: u)
  from t have "\<forall>ev \<in> set (new_trace (ex_plain 2) (snd (uploadFiles ex_env_late [ex_a, ex_b] ''/r/w'' (ex_plain 2)))).
                 meta_call ex_env_late ''/r/w'' [ex_a, ex_b] ev"
    by blast
  then have m: "list_all (meta_call ex_env_late ''/r/w'' [ex_a, ex_b]) (new_trace (ex_plain 2) s')"
    by (simp add: list_all_iff u)
  have first: "0 < workers (ex_plain 2)
   \<and> fst (uploadFiles ex_env_late [ex_a, ex_b] ''/r/w'' (ex_plain 2)) = None
   \<and> list_all (meta_call ex_env_late ''/r/w'' [ex_a, ex_b])
        (new_trace (ex_plain 2) (snd (uploadFiles ex_env_late [ex_a, ex_b] ''/r/w'' (ex_plain 2))))
   \<and> filter is_chmod (new_trace (ex_plain 2) (snd (uploadFiles ex_env_late [ex_a, ex_b] ''/r/w'' (ex_plain 2))))
       = [Called (Chmod ''/r/w/a'' 420) None, Called (Chmod ''/r/w/d/b'' 420) None]
   \<and> filter is_chtimes (new_trace (ex_plain 2) (snd (uploadFiles ex_env_late [ex_a, ex_b] ''/r/w'' (ex_plain 2))))
       = [Called (Chtimes ''/r/w/d/b'' 1001 9) None, Called (Chtimes ''/r/w/a'' 1000 7) None]
   \<and> length (filter (chtimes ''/r/w/a'')
        (new_trace (ex_plain 2) (snd (uploadFiles ex_env_late [ex_a, ex_b] ''/r/w'' (ex_plain 2))))) = 1
   \<and> map_of (nodes (remote (snd (uploadFiles ex_env_late [ex_a, ex_b] ''/r/w'' (ex_plain 2))))) ''/r/w/a''
       = Some (NFile ''abcde'' 420 1000 7)
   \<and> map_of (nodes (remote (snd (uploadFiles ex_env_late [ex_a, ex_b] ''/r/w'' (ex_plain 2))))) ''/r/w/d/b''
       = Some (NFile ''hi'' 420 1001 9)"
    using h c m w unfolding u by simp
  have w2: "0 < workers ex_create_fails"
    by (simp add: ex_create_fails_def New_def ex_cfg_def)
  have b: "ex_b \<in> set [ex_a, ex_d, ex_b]" "\<not> IsDir ex_b"
          "fp_Join ex_env_seq ''/r/w'' (RelPath ex_b) = ''/r/w/d/b''"
    by (simp_all add: ex_b_def ex_env_seq_def ex_env_def)
  have g: "case uploadFiles ex_env_seq [ex_a, ex_d, ex_b] ''/r/w'' ex_create_fails of
             (r, s') \<Rightarrow>
                r = Some ''worker error: failed to upload file a: failed to create remote file: injected''
                \<and> filter (fails_of ex_env_seq ''/r/w'' ex_b) (new_trace ex_create_fails s') = []"
    by code_simp
  then have g1: "fst (uploadFiles ex_env_seq [ex_a, ex_d, ex_b] ''/r/w'' ex_create_fails)
       = Some ''worker error: failed to upload file a: failed to create remote file: injected''"
    and g2: "filter (fails_of ex_env_seq ''/r/w'' ex_b)
        (new_trace ex_create_fails (snd (uploadFiles ex_env_seq [ex_a, ex_d, ex_b] ''/r/w'' ex_create_fails))) = []"
    by (cases "uploadFiles ex_env_seq [ex_a, ex_d, ex_b] ''/r/w'' ex_create_fails"; simp)+
  note t2 = uploadFile_mode_and_times[where env = ex_env_seq and base = "''/r/w''"
        and s = ex_create_fails and files = "[ex_a, ex_d, ex_b]"]
  from t2 w2 b(1,2) g2
  have "1 \<le> length (filter (chmods (fp_Join ex_env_seq ''/r/w'' (RelPath ex_b)))
        (new_trace ex_create_fails (snd (uploadFiles ex_env_seq [ex_a, ex_d, ex_b] ''/r/w'' ex_create_fails))))
   \<and> 1 \<le> length (filter (chtimes (fp_Join ex_env_seq ''/r/w'' (RelPath ex_b)))
        (new_trace ex_create_fails (snd (uploadFiles ex_env_seq [ex_a, ex_d, ex_b] ''/r/w'' ex_create_fails))))"
    by blast
  with b(3) w2 b(1,2) g1 g2 first show ?thesis by simp
qed


end
